theory Spec2Isabelle
  imports Main
begin

section \<open>The worker node of \<^verbatim>\<open>dask/distributed/node.py\<close>\<close>

text \<open>
  The module defines one class, \<^verbatim>\<open>Worker\<close>: two polling loops
  (\<^verbatim>\<open>listen_to_scheduler\<close>, \<^verbatim>\<open>listen_to_workers\<close>) decode inbound
  messages with \<^verbatim>\<open>unpack_function\<close> and hand them to a thread pool, where
  \<^verbatim>\<open>execute_and_reply\<close> looks the function up in \<^verbatim>\<open>self.functions\<close>,
  calls it and sends the reply through \<^verbatim>\<open>send_to_scheduler\<close> or
  \<^verbatim>\<open>send_to_worker\<close>. The handlers \<^verbatim>\<open>collect\<close> and \<^verbatim>\<open>compute\<close>
  talk to peers and to the task evaluator.

  The embedding is sequential: one call of a source function is one HOL function
  application on an explicit state (the data store). What the outside world does during a
  call (peer replies, the random choice, the evaluator, the clock) is an input, the record
  \<open>env\<close>.
\<close>

subsection \<open>Python values\<close>

text \<open>
  The values that travel in messages and live in the store. \<^verbatim>\<open>bool\<close> is a
  subclass of \<^verbatim>\<open>int\<close> with \<^verbatim>\<open>True == 1\<close> and the same hash, and the
  module only tests truth values and looks keys up, so \<^verbatim>\<open>True\<close> and \<^verbatim>\<open>False\<close>
  are the integers 1 and 0. Floats occur as clock readings; their type \<open>'t\<close> and its
  subtraction are left open. An exception object is its class name and its arguments; every
  exception of the model is an instance of \<^verbatim>\<open>Exception\<close>.
\<close>

datatype 't pyval =
    PNone
  | PInt int
  | PStr string
  | PFloat 't
  | PTuple "'t pyval list"
  | PList "'t pyval list"
  | PDict "('t pyval \<times> 't pyval) list"
  | PExc string "'t pyval list"

abbreviation PTrue :: "'t pyval" where "PTrue \<equiv> PInt 1"
abbreviation PFalse :: "'t pyval" where "PFalse \<equiv> PInt 0"

abbreviation KeyError :: "'t pyval \<Rightarrow> 't pyval" where
  "KeyError k \<equiv> PExc ''KeyError'' [k]"
abbreviation TypeError :: "'t pyval" where
  "TypeError \<equiv> PExc ''TypeError'' []"
abbreviation AttributeError :: "'t pyval" where
  "AttributeError \<equiv> PExc ''AttributeError'' []"
abbreviation ValueError :: "'t pyval" where
  "ValueError \<equiv> PExc ''ValueError'' []"
abbreviation IndexError :: "'t pyval" where
  "IndexError \<equiv> PExc ''IndexError'' []"

text \<open>Statements that can raise are chained with \<open>then_do\<close>: the first exception
  (\<open>Inl\<close>) ends the chain, as it ends the block in the source.\<close>

fun then_do :: "'e + 'a \<Rightarrow> ('a \<Rightarrow> 'e + 'b) \<Rightarrow> 'e + 'b" where
  "then_do (Inl e) f = Inl e"
| "then_do (Inr x) f = f x"

text \<open>\<^verbatim>\<open>hash(v)\<close> succeeds: lists and dicts are unhashable, a tuple is hashable when
  its elements are.\<close>

fun hashable :: "'t pyval \<Rightarrow> bool" where
  "hashable (PList xs) = False"
| "hashable (PDict kvs) = False"
| "hashable (PTuple xs) = list_all hashable xs"
| "hashable v = True"

text \<open>\<^verbatim>\<open>bool(v)\<close>, as \<^verbatim>\<open>if reply\<close> evaluates it.\<close>

fun truthy :: "('t::zero) pyval \<Rightarrow> bool" where
  "truthy PNone = False"
| "truthy (PInt n) = (n \<noteq> 0)"
| "truthy (PStr s) = (s \<noteq> [])"
| "truthy (PFloat x) = (x \<noteq> 0)"
| "truthy (PTuple xs) = (xs \<noteq> [])"
| "truthy (PList xs) = (xs \<noteq> [])"
| "truthy (PDict kvs) = (kvs \<noteq> [])"
| "truthy (PExc n a) = True"

text \<open>\<^verbatim>\<open>d.get(key, default)\<close> with a string key: only a dict has the method.\<close>

fun method_get :: "'t pyval \<Rightarrow> string \<Rightarrow> 't pyval \<Rightarrow> 't pyval + 't pyval" where
  "method_get (PDict kvs) key dflt =
     (case map_of kvs (PStr key) of Some v \<Rightarrow> Inr v | None \<Rightarrow> Inr dflt)"
| "method_get v key dflt = Inl AttributeError"

text \<open>\<^verbatim>\<open>d[key]\<close> with a string key: a dict raises \<^verbatim>\<open>KeyError\<close> when the key
  is absent, every other value of the model raises \<^verbatim>\<open>TypeError\<close>.\<close>

fun subscript :: "'t pyval \<Rightarrow> string \<Rightarrow> 't pyval + 't pyval" where
  "subscript (PDict kvs) key =
     (case map_of kvs (PStr key) of Some v \<Rightarrow> Inr v | None \<Rightarrow> Inl (KeyError (PStr key)))"
| "subscript v key = Inl TypeError"

text \<open>\<^verbatim>\<open>d[key] = value\<close> on a dict literal: the entry is replaced in place, or
  appended.\<close>

fun dict_set :: "('t pyval \<times> 't pyval) list \<Rightarrow> 't pyval \<Rightarrow> 't pyval \<Rightarrow> ('t pyval \<times> 't pyval) list" where
  "dict_set [] k v = [(k, v)]"
| "dict_set ((k', v') # kvs) k v = (if k' = k then (k, v) # kvs else (k', v') # dict_set kvs k v)"

text \<open>\<^verbatim>\<open>isinstance(v, tuple)\<close>.\<close>

fun is_tuple :: "'t pyval \<Rightarrow> bool" where
  "is_tuple (PTuple xs) = True"
| "is_tuple v = False"

subsection \<open>Frames and the serializer\<close>

text \<open>
  A frame of a multipart message is either the serialization of a value or bytes that are
  no serialization (the identity frame of a router socket, the \<^verbatim>\<open>'Register'\<close>
  marker, garbage). \<^verbatim>\<open>self.dumps\<close> and \<^verbatim>\<open>self.loads\<close> are the pickle
  functions: every value of the model has a pickle, \<^verbatim>\<open>loads\<close> gives the value
  back, and it raises on bytes that are no pickle.
\<close>

datatype 't frame = Pickled "'t pyval" | Raw string

definition dumps :: "'t pyval \<Rightarrow> 't frame" where
  "dumps v = Pickled v"

fun loads :: "'t frame \<Rightarrow> 't pyval + 't pyval" where
  "loads (Pickled v) = Inr v"
| "loads (Raw bs) = Inl (PExc ''UnpicklingError'' [])"

subsection \<open>\<^verbatim>\<open>unpack_function\<close>\<close>

text \<open>
  \<^verbatim>\<open>
    payload = self.loads(payload)
    header = self.loads(header)
    jobid = header.get('jobid', None)
    reply = header.get('reply', True)
    func = payload['function']
    args = payload.get('args', ())
    if not isinstance(args, tuple):
        args = (args,)
    kwargs = payload.get('kwargs', dict())
    return func, args, kwargs, jobid, reply
  \<close>
  Every statement that can raise is a branch: \<open>Inl\<close> carries the exception.
\<close>

record 't unpacked =
  u_func :: "'t pyval"
  u_args :: "'t pyval"
  u_kwargs :: "'t pyval"
  u_jobid :: "'t pyval"
  u_reply :: "'t pyval"

definition unpack_function :: "'t frame \<Rightarrow> 't frame \<Rightarrow> 't pyval + 't unpacked" where
  "unpack_function header payload =
     then_do (loads payload) (\<lambda>payload'.
     then_do (loads header) (\<lambda>header'.
     then_do (method_get header' ''jobid'' PNone) (\<lambda>jobid.
     then_do (method_get header' ''reply'' PTrue) (\<lambda>reply.
     then_do (subscript payload' ''function'') (\<lambda>func.
     then_do (method_get payload' ''args'' (PTuple [])) (\<lambda>args.
     then_do (method_get payload' ''kwargs'' (PDict [])) (\<lambda>kwargs.
       Inr \<lparr>u_func = func,
            u_args = (if \<not> is_tuple args then PTuple [args] else args),
            u_kwargs = kwargs, u_jobid = jobid, u_reply = reply\<rparr>)))))))"

subsection \<open>The worker, its environment and what a call leaves behind\<close>

text \<open>
  The fields of \<^verbatim>\<open>self\<close> that the methods read or write. \<^verbatim>\<open>self.lock\<close> is
  the one \<^verbatim>\<open>Lock()\<close> object that \<^verbatim>\<open>__init__\<close> creates; lock objects are
  numbered. \<^verbatim>\<open>self.data\<close> is the dict given to the constructor.
\<close>

type_synonym 't store = "'t pyval \<rightharpoonup> 't pyval"

record 't worker =
  address :: string
  scheduler :: string
  status :: string
  lock :: nat
  data :: "'t store"

text \<open>
  The inputs from outside during one call: \<open>net a frames\<close> is the reply that arrives on a
  fresh dealer socket connected to \<open>a\<close> after \<open>frames\<close> were sent (\<open>None\<close>: no reply
  ever arrives and \<^verbatim>\<open>recv_multipart\<close> blocks); \<open>pick key\<close> is the random draw
  behind \<^verbatim>\<open>random.choice\<close> for that key; \<open>evaluator\<close> is
  \<^verbatim>\<open>dask.core.get\<close>, which returns a value or raises; \<open>clock n\<close> is what the
  \<open>n\<close>-th call of \<^verbatim>\<open>time()\<close> returns; \<open>str_of\<close> is \<^verbatim>\<open>str\<close> on values
  that are not strings.
\<close>

record 't env =
  net :: "string \<Rightarrow> 't frame list \<Rightarrow> 't frame list option"
  pick :: "'t pyval \<Rightarrow> nat"
  evaluator :: "'t store \<Rightarrow> 't pyval \<Rightarrow> 't pyval + 't pyval"
  clock :: "nat \<Rightarrow> 't"
  str_of :: "'t pyval \<Rightarrow> string"

text \<open>A call returns a value, raises, or never comes back. Whichever it is, the writes
  it made to \<^verbatim>\<open>self.data\<close> and the requests it sent to peers stay.\<close>

datatype 't outcome = Return "'t pyval" | Raise "'t pyval" | Block

text \<open>A request sent on a fresh socket: the address connected to and the frames.\<close>

type_synonym 't sock = "string \<times> 't frame list"

subsection \<open>The store handlers and \<^verbatim>\<open>status\<close>\<close>

text \<open>\<^verbatim>\<open>self.data.__getitem__\<close>, \<^verbatim>\<open>__setitem__\<close>, \<^verbatim>\<open>__delitem__\<close> of a
  dict: an unhashable key raises \<^verbatim>\<open>TypeError\<close>, an absent one \<^verbatim>\<open>KeyError\<close>.\<close>

definition getitem :: "'t worker \<Rightarrow> 't pyval \<Rightarrow> 't worker \<times> 't sock list \<times> 't outcome" where
  "getitem w k =
     (if \<not> hashable k then (w, [], Raise TypeError)
      else (case data w k of
              None \<Rightarrow> (w, [], Raise (KeyError k))
            | Some v \<Rightarrow> (w, [], Return v)))"

definition setitem :: "'t worker \<Rightarrow> 't pyval \<Rightarrow> 't pyval \<Rightarrow> 't worker \<times> 't sock list \<times> 't outcome" where
  "setitem w k v =
     (if \<not> hashable k then (w, [], Raise TypeError)
      else (w\<lparr>data := (data w)(k \<mapsto> v)\<rparr>, [], Return PNone))"

definition delitem :: "'t worker \<Rightarrow> 't pyval \<Rightarrow> 't worker \<times> 't sock list \<times> 't outcome" where
  "delitem w k =
     (if \<not> hashable k then (w, [], Raise TypeError)
      else (case data w k of
              None \<Rightarrow> (w, [], Raise (KeyError k))
            | Some v \<Rightarrow> (w\<lparr>data := (data w)(k := None)\<rparr>, [], Return PNone)))"

subsection \<open>\<^verbatim>\<open>collect\<close>\<close>

text \<open>\<^verbatim>\<open>random.choice(seq)\<close> is \<^verbatim>\<open>seq[int(random() * len(seq))]\<close>; \<open>r\<close> is the
  draw.\<close>

fun choice :: "nat \<Rightarrow> 't pyval \<Rightarrow> 't pyval + 't pyval" where
  "choice r (PList xs) = (if xs = [] then Inl IndexError else Inr (xs ! (r mod length xs)))"
| "choice r (PTuple xs) = (if xs = [] then Inl IndexError else Inr (xs ! (r mod length xs)))"
| "choice r (PStr s) = (if s = [] then Inl IndexError else Inr (PStr [s ! (r mod length s)]))"
| "choice r (PDict kvs) =
     (let i = PInt (if kvs = [] then 0 else int (r mod length kvs))
      in case map_of kvs i of Some v \<Rightarrow> Inr v | None \<Rightarrow> Inl (KeyError i))"
| "choice r v = Inl TypeError"

text \<open>\<^verbatim>\<open>sock.connect(addr)\<close> wants a string.\<close>

fun connect :: "'t pyval \<Rightarrow> 't pyval + string" where
  "connect (PStr a) = Inr a"
| "connect v = Inl TypeError"

text \<open>The request for one key:
  \<^verbatim>\<open>header = {'address': self.address, 'jobid': key}\<close>,
  \<^verbatim>\<open>payload = {'function': 'getitem', 'args': (key,)}\<close>.\<close>

definition getitem_request :: "string \<Rightarrow> 't pyval \<Rightarrow> 't frame list" where
  "getitem_request self_address key =
     [dumps (PDict [(PStr ''address'', PStr self_address), (PStr ''jobid'', key)]),
      dumps (PDict [(PStr ''function'', PStr ''getitem''), (PStr ''args'', PTuple [key])])]"

text \<open>
  The first loop, over \<^verbatim>\<open>locations.items()\<close>:
  \<^verbatim>\<open>
    for key, locs in locations.items():
        if key in self.data:
            continue
        sock = context.socket(zmq.DEALER)
        sock.connect(random.choice(locs))
        ...
        sock.send_multipart([self.dumps(header), self.dumps(payload)])
        socks.append(sock)
  \<close>
  The store is not written in this loop. The result is the sockets with a request on them
  and the exception that ended the loop, if one did.
\<close>

fun collect_requests ::
  "'t env \<Rightarrow> 't worker \<Rightarrow> ('t pyval \<times> 't pyval) list \<Rightarrow> 't sock list \<times> 't pyval option" where
  "collect_requests env w [] = ([], None)"
| "collect_requests env w ((key, locs) # items) =
     (if \<not> hashable key then ([], Some TypeError)
      else if data w key \<noteq> None then collect_requests env w items
      else (case then_do (choice (pick env key) locs) connect of
              Inl e \<Rightarrow> ([], Some e)
            | Inr a \<Rightarrow>
                (case collect_requests env w items of
                   (socks, exc) \<Rightarrow> ((a, getitem_request (address w) key) # socks, exc))))"

text \<open>
  One reply:
  \<^verbatim>\<open>
    header, payload = sock.recv_multipart()
    header = self.loads(header)
    payload = self.loads(payload)
    log(self.address, 'Receive data', header['address'], header['jobid'])
    self.data[header['jobid']] = payload
  \<close>
\<close>

definition store_reply :: "'t worker \<Rightarrow> 't frame list \<Rightarrow> 't pyval + 't worker" where
  "store_reply w reply =
     (case reply of
        [header, payload] \<Rightarrow>
          then_do (loads header) (\<lambda>header'.
          then_do (loads payload) (\<lambda>payload'.
          then_do (subscript header' ''address'') (\<lambda>sender.
          then_do (subscript header' ''jobid'') (\<lambda>jobid.
            if \<not> hashable jobid then Inl TypeError
            else Inr (w\<lparr>data := (data w)(jobid \<mapsto> payload')\<rparr>)))))
      | _ \<Rightarrow> Inl ValueError)"

text \<open>The second loop, \<^verbatim>\<open>for sock in socks\<close>: it blocks on each socket in turn.\<close>

fun collect_replies :: "'t env \<Rightarrow> 't worker \<Rightarrow> 't sock list \<Rightarrow> 't worker \<times> 't outcome" where
  "collect_replies env w [] = (w, Return PNone)"
| "collect_replies env w ((a, request) # socks) =
     (case net env a request of
        None \<Rightarrow> (w, Block)
      | Some reply \<Rightarrow>
          (case store_reply w reply of
             Inl e \<Rightarrow> (w, Raise e)
           | Inr w' \<Rightarrow> collect_replies env w' socks))"

text \<open>\<^verbatim>\<open>locations.items()\<close> needs a dict.\<close>

definition collect :: "'t env \<Rightarrow> 't worker \<Rightarrow> 't pyval \<Rightarrow> 't worker \<times> 't sock list \<times> 't outcome" where
  "collect env w locations =
     (case locations of
        PDict items \<Rightarrow>
          (case collect_requests env w items of
             (socks, Some e) \<Rightarrow> (w, socks, Raise e)
           | (socks, None) \<Rightarrow>
               (case collect_replies env w socks of (w', out) \<Rightarrow> (w', socks, out)))
      | _ \<Rightarrow> (w, [], Raise AttributeError))"

subsection \<open>\<^verbatim>\<open>compute\<close>\<close>

text \<open>
  \<^verbatim>\<open>
    self.collect(locations)
    start = time()
    status = "OK"
    try:
        result = dask.core.get(self.data, task)
        end = time()
    except Exception as e:
        status = e
        end = time()
    else:
        self.data[key] = result
    return {'key': key, 'duration': end - start, 'status': status}
  \<close>
  The call of \<^verbatim>\<open>collect\<close> and the store in the \<^verbatim>\<open>else\<close> branch are outside the
  \<^verbatim>\<open>try\<close>: what they raise leaves \<^verbatim>\<open>compute\<close>.
\<close>

definition outcome_record :: "'t pyval \<Rightarrow> 't \<Rightarrow> 't pyval \<Rightarrow> 't pyval" where
  "outcome_record key duration st =
     PDict [(PStr ''key'', key), (PStr ''duration'', PFloat duration), (PStr ''status'', st)]"

definition compute ::
  "('t::minus) env \<Rightarrow> 't worker \<Rightarrow> 't pyval \<Rightarrow> 't pyval \<Rightarrow> 't pyval
     \<Rightarrow> 't worker \<times> 't sock list \<times> 't outcome" where
  "compute env w key task locations =
     (case collect env w locations of
        (w1, socks, Raise e) \<Rightarrow> (w1, socks, Raise e)
      | (w1, socks, Block) \<Rightarrow> (w1, socks, Block)
      | (w1, socks, Return none) \<Rightarrow>
          (let start = clock env 0 in
           case evaluator env (data w1) task of
             Inr result \<Rightarrow>
               (let endt = clock env 1 in
                if \<not> hashable key then (w1, socks, Raise TypeError)
                else (w1\<lparr>data := (data w1)(key \<mapsto> result)\<rparr>, socks,
                      Return (outcome_record key (endt - start) (PStr ''OK''))))
           | Inl e \<Rightarrow>
               (let endt = clock env 1 in
                (w1, socks, Return (outcome_record key (endt - start) e)))))"

subsection \<open>The function registry and the call \<^verbatim>\<open>function(*args, **kwargs)\<close>\<close>

text \<open>\<^verbatim>\<open>self.functions\<close>, as \<^verbatim>\<open>__init__\<close> fills it.\<close>

datatype handler = H_status | H_collect | H_compute | H_getitem | H_setitem | H_delitem

definition self_functions :: "(string \<times> handler) list" where
  "self_functions =
     [(''status'', H_status),
      (''collect'', H_collect),
      (''compute'', H_compute),
      (''getitem'', H_getitem),
      (''setitem'', H_setitem),
      (''delitem'', H_delitem)]"

text \<open>\<^verbatim>\<open>func in self.functions\<close> for a hashable \<open>func\<close>: the keys are strings.\<close>

fun in_functions :: "'t pyval \<Rightarrow> bool" where
  "in_functions (PStr name) = (map_of self_functions name \<noteq> None)"
| "in_functions v = False"

text \<open>\<^verbatim>\<open>self.functions[func]\<close>: \<^verbatim>\<open>TypeError\<close> on an unhashable key,
  \<^verbatim>\<open>KeyError(func)\<close> on an absent one.\<close>

definition lookup_function :: "'t pyval \<Rightarrow> 't pyval + handler" where
  "lookup_function func =
     (if \<not> hashable func then Inl TypeError
      else (case func of
              PStr name \<Rightarrow>
                (case map_of self_functions name of
                   Some h \<Rightarrow> Inr h
                 | None \<Rightarrow> Inl (KeyError func))
            | _ \<Rightarrow> Inl (KeyError func)))"

text \<open>\<^verbatim>\<open>*args\<close> iterates over its operand; \<^verbatim>\<open>**kwargs\<close> wants a mapping with
  string keys.\<close>

fun star_args :: "'t pyval \<Rightarrow> 't pyval + 't pyval list" where
  "star_args (PTuple xs) = Inr xs"
| "star_args (PList xs) = Inr xs"
| "star_args (PStr s) = Inr (map (\<lambda>c. PStr [c]) s)"
| "star_args (PDict kvs) = Inr (map fst kvs)"
| "star_args v = Inl TypeError"

fun keyword :: "'t pyval \<times> 't pyval \<Rightarrow> (string \<times> 't pyval) option" where
  "keyword (PStr name, v) = Some (name, v)"
| "keyword (k, v) = None"

fun star_kwargs :: "'t pyval \<Rightarrow> 't pyval + (string \<times> 't pyval) list" where
  "star_kwargs (PDict kvs) =
     (if list_all (\<lambda>kv. keyword kv \<noteq> None) kvs then Inr (map (\<lambda>kv. the (keyword kv)) kvs)
      else Inl TypeError)"
| "star_kwargs v = Inl TypeError"

text \<open>
  Binding the arguments of a call to the parameters of a \<^verbatim>\<open>def\<close> without defaults:
  positional arguments fill the parameters from the left, the rest come from the keywords;
  a parameter given twice, a missing one, a positional argument or a keyword too many are
  a \<^verbatim>\<open>TypeError\<close> (\<open>None\<close> here).
\<close>

fun bind_params ::
  "string list \<Rightarrow> 't pyval list \<Rightarrow> (string \<times> 't pyval) list \<Rightarrow> 't pyval list option" where
  "bind_params [] [] kw = (if kw = [] then Some [] else None)"
| "bind_params [] (p # ps) kw = None"
| "bind_params (n # ns) (p # ps) kw =
     (if map_of kw n \<noteq> None then None
      else map_option (\<lambda>vs. p # vs) (bind_params ns ps kw))"
| "bind_params (n # ns) [] kw =
     (case map_of kw n of
        None \<Rightarrow> None
      | Some v \<Rightarrow> map_option (\<lambda>vs. v # vs) (bind_params ns [] (filter (\<lambda>kv. fst kv \<noteq> n) kw)))"

text \<open>
  The call of a registered function. \<^verbatim>\<open>status\<close>, \<^verbatim>\<open>collect\<close> and
  \<^verbatim>\<open>compute\<close> are Python functions with the parameters of their \<^verbatim>\<open>def\<close>
  (\<^verbatim>\<open>self\<close> is bound already); the three dict methods take positional arguments only.
\<close>

definition status_fn :: "'t worker \<Rightarrow> 't worker \<times> 't sock list \<times> 't outcome" where
  "status_fn w = (w, [], Return (PStr ''OK''))"

fun call ::
  "('t::minus) env \<Rightarrow> 't worker \<Rightarrow> handler \<Rightarrow> 't pyval list \<Rightarrow> (string \<times> 't pyval) list
     \<Rightarrow> 't worker \<times> 't sock list \<times> 't outcome" where
  "call env w H_status pos kw =
     (case bind_params [] pos kw of
        Some [] \<Rightarrow> status_fn w
      | _ \<Rightarrow> (w, [], Raise TypeError))"
| "call env w H_collect pos kw =
     (case bind_params [''locations''] pos kw of
        Some [locations] \<Rightarrow> collect env w locations
      | _ \<Rightarrow> (w, [], Raise TypeError))"
| "call env w H_compute pos kw =
     (case bind_params [''key'', ''task'', ''locations''] pos kw of
        Some [key, task, locations] \<Rightarrow> compute env w key task locations
      | _ \<Rightarrow> (w, [], Raise TypeError))"
| "call env w H_getitem pos kw =
     (if kw \<noteq> [] then (w, [], Raise TypeError)
      else (case pos of [k] \<Rightarrow> getitem w k | _ \<Rightarrow> (w, [], Raise TypeError)))"
| "call env w H_setitem pos kw =
     (if kw \<noteq> [] then (w, [], Raise TypeError)
      else (case pos of [k, v] \<Rightarrow> setitem w k v | _ \<Rightarrow> (w, [], Raise TypeError)))"
| "call env w H_delitem pos kw =
     (if kw \<noteq> [] then (w, [], Raise TypeError)
      else (case pos of [k] \<Rightarrow> delitem w k | _ \<Rightarrow> (w, [], Raise TypeError)))"

subsection \<open>\<^verbatim>\<open>execute_and_reply\<close>\<close>

text \<open>
  \<^verbatim>\<open>
    try:
        function = self.functions[func]
        result = function(*args, **kwargs)
        status = 'OK'
    except KeyError as e:
        result = e
        if func not in self.functions:
            status = 'Function %s not found' % func
        else:
            status = 'Error'
    except Exception as e:
        result = e
        status = 'Error'
  \<close>
  The block ends with a status and a result, or the formatting in the first handler raises
  and the exception leaves \<^verbatim>\<open>execute_and_reply\<close>, or the call never returns.
\<close>

datatype 't verdict = Verdict string "'t pyval" | Escapes "'t pyval" | Never

text \<open>\<^verbatim>\<open>'Function %s not found' % func\<close>: a tuple on the right is the argument
  list of the format, and must have one element; a string formats as itself.\<close>

definition py_str :: "'t env \<Rightarrow> 't pyval \<Rightarrow> string" where
  "py_str env v = (case v of PStr s \<Rightarrow> s | _ \<Rightarrow> str_of env v)"

fun format_not_found :: "'t env \<Rightarrow> 't pyval \<Rightarrow> 't pyval + string" where
  "format_not_found env (PTuple [x]) = Inr (''Function '' @ py_str env x @ '' not found'')"
| "format_not_found env (PTuple xs) = Inl TypeError"
| "format_not_found env v = Inr (''Function '' @ py_str env v @ '' not found'')"

fun is_KeyError :: "'t pyval \<Rightarrow> bool" where
  "is_KeyError (PExc name a) = (name = ''KeyError'')"
| "is_KeyError v = False"

text \<open>The two \<^verbatim>\<open>except\<close> clauses, for the exception \<open>e\<close> raised in the
  \<^verbatim>\<open>try\<close> block.\<close>

definition handle_exception :: "'t env \<Rightarrow> 't pyval \<Rightarrow> 't pyval \<Rightarrow> 't verdict" where
  "handle_exception env func e =
     (if is_KeyError e then
        (if \<not> hashable func then Escapes TypeError
         else if \<not> in_functions func then
           (case format_not_found env func of
              Inl e' \<Rightarrow> Escapes e'
            | Inr st \<Rightarrow> Verdict st e)
         else Verdict ''Error'' e)
      else Verdict ''Error'' e)"

definition execute ::
  "('t::minus) env \<Rightarrow> 't worker \<Rightarrow> 't pyval \<Rightarrow> 't pyval \<Rightarrow> 't pyval
     \<Rightarrow> 't worker \<times> 't sock list \<times> 't verdict" where
  "execute env w func args kwargs =
     (case lookup_function func of
        Inl e \<Rightarrow> (w, [], handle_exception env func e)
      | Inr function \<Rightarrow>
          (case then_do (star_args args) (\<lambda>pos.
                then_do (star_kwargs kwargs) (\<lambda>kw. Inr (pos, kw))) of
             Inl e \<Rightarrow> (w, [], handle_exception env func e)
           | Inr (pos, kw) \<Rightarrow>
               (case call env w function pos kw of
                  (w', socks, Return result) \<Rightarrow> (w', socks, Verdict ''OK'' result)
                | (w', socks, Raise e) \<Rightarrow> (w', socks, handle_exception env func e)
                | (w', socks, Block) \<Rightarrow> (w', socks, Never))))"

text \<open>
  The two send paths. Each writes the frames of one multipart message to its socket inside
  \<^verbatim>\<open>with self.lock\<close>; \<open>Sent l c fs\<close> is that write of \<open>fs\<close> to \<open>c\<close> under the
  lock \<open>l\<close>.
  \<^verbatim>\<open>
    def send_to_scheduler(self, header, payload):
        header['address'] = self.address
        with self.lock:
            self.dealer.send_multipart([self.dumps(header), self.dumps(payload)])

    def send_to_worker(self, address, header, result):
        header['address'] = self.address
        with self.lock:
            self.router.send_multipart([address, self.dumps(header), self.dumps(result)])
  \<close>
\<close>

datatype channel = Dealer | Router

datatype 't message = Sent (under_lock: nat) (channel: channel) (frames: "'t frame list")

definition send_to_scheduler ::
  "'t worker \<Rightarrow> ('t pyval \<times> 't pyval) list \<Rightarrow> 't pyval \<Rightarrow> 't message" where
  "send_to_scheduler w header payload =
     (let header' = dict_set header (PStr ''address'') (PStr (address w))
      in Sent (lock w) Dealer [dumps (PDict header'), dumps payload])"

definition send_to_worker ::
  "'t worker \<Rightarrow> 't frame \<Rightarrow> ('t pyval \<times> 't pyval) list \<Rightarrow> 't pyval \<Rightarrow> 't message" where
  "send_to_worker w addr header result =
     (let header' = dict_set header (PStr ''address'') (PStr (address w))
      in Sent (lock w) Router [addr, dumps (PDict header'), dumps result])"

text \<open>The \<^verbatim>\<open>send\<close> argument: one of the two send paths (the second with the address
  frame of the request), or \<^verbatim>\<open>None\<close>.\<close>

datatype 't sink = To_scheduler | To_worker "'t frame"

record 't job =
  func :: "'t pyval"
  args :: "'t pyval"
  kwargs :: "'t pyval"
  jobid :: "'t pyval"
  send :: "'t sink option"

text \<open>What one run of \<^verbatim>\<open>execute_and_reply\<close> leaves: the worker afterwards, the
  requests sent to peers, the messages written to the two channels, and how the run
  ended.\<close>

record 't effects =
  after :: "'t worker"
  requests :: "'t sock list"
  sent :: "'t message list"
  ending :: "'t outcome"

text \<open>
  \<^verbatim>\<open>
    header = {'jobid': jobid, 'status': status}
    with logerrors():
        if send is not None:
            send(header, result)
  \<close>
\<close>

definition execute_and_reply :: "('t::minus) env \<Rightarrow> 't worker \<Rightarrow> 't job \<Rightarrow> 't effects" where
  "execute_and_reply env w j =
     (case execute env w (func j) (args j) (kwargs j) of
        (w', socks, Verdict st result) \<Rightarrow>
          (let header = [(PStr ''jobid'', jobid j), (PStr ''status'', PStr st)]
           in \<lparr>after = w', requests = socks,
               sent = (case send j of
                         None \<Rightarrow> []
                       | Some To_scheduler \<Rightarrow> [send_to_scheduler w' header result]
                       | Some (To_worker addr) \<Rightarrow> [send_to_worker w' addr header result]),
               ending = Return PNone\<rparr>)
      | (w', socks, Escapes e) \<Rightarrow>
          \<lparr>after = w', requests = socks, sent = [], ending = Raise e\<rparr>
      | (w', socks, Never) \<Rightarrow>
          \<lparr>after = w', requests = socks, sent = [], ending = Block\<rparr>)"

subsection \<open>The polling loops and the pool\<close>

text \<open>
  The body of \<^verbatim>\<open>listen_to_scheduler\<close> for one message that \<^verbatim>\<open>poll\<close> announced:
  \<^verbatim>\<open>
    header, payload = self.dealer.recv_multipart()
    func, args, kwargs, jobid, reply = self.unpack_function(header, payload)
    future = self.pool.apply_async(self.execute_and_reply,
                  args=(func, args, kwargs, jobid,
                        self.send_to_scheduler if reply else None))
  \<close>
  No statement of the body is inside a \<^verbatim>\<open>try\<close>. The result is the call handed to
  the pool, or the exception that leaves the body.
\<close>

definition listen_to_scheduler_body :: "('t::zero) frame list \<Rightarrow> 't pyval + 't job" where
  "listen_to_scheduler_body message =
     (case message of
        [header, payload] \<Rightarrow>
          then_do (unpack_function header payload) (\<lambda>u.
            Inr \<lparr>func = u_func u, args = u_args u, kwargs = u_kwargs u, jobid = u_jobid u,
                 send = (if truthy (u_reply u) then Some To_scheduler else None)\<rparr>)
      | _ \<Rightarrow> Inl ValueError)"

text \<open>
  The body of \<^verbatim>\<open>listen_to_workers\<close>:
  \<^verbatim>\<open>
    address, header, payload = self.router.recv_multipart()
    func, args, kwargs, jobid, reply = self.unpack_function(header, payload)
    header = self.loads(header)
    log(self.address, 'Receive job from worker', header['address'], jobid, func)
    self.pool.apply_async(self.execute_and_reply,
            args=(func, args, kwargs, jobid,
                  self.send_to_worker(address) if reply else None))
  \<close>
\<close>

definition listen_to_workers_body :: "('t::zero) frame list \<Rightarrow> 't pyval + 't job" where
  "listen_to_workers_body message =
     (case message of
        [addr, header, payload] \<Rightarrow>
          then_do (unpack_function header payload) (\<lambda>u.
          then_do (loads header) (\<lambda>header'.
          then_do (subscript header' ''address'') (\<lambda>sender.
            Inr \<lparr>func = u_func u, args = u_args u, kwargs = u_kwargs u, jobid = u_jobid u,
                 send = (if truthy (u_reply u) then Some (To_worker addr) else None)\<rparr>)))
      | _ \<Rightarrow> Inl ValueError)"

text \<open>
  The loops, \<^verbatim>\<open>while self.status != 'closed'\<close>. What a loop meets, iteration by
  iteration, is its input: \<^verbatim>\<open>poll(100)\<close> times out, or a message has arrived, or
  \<^verbatim>\<open>close()\<close> has set \<^verbatim>\<open>self.status\<close> in the meantime. The result is the
  calls handed to the pool and where the loop stands at the end of the input: still
  polling, left through its condition, or ended by an exception.
\<close>

datatype 't event = Timeout | Arrival "'t frame list" | Close

datatype 't loop_state = Polling | Left | Crashed "'t pyval"

fun listen_to_scheduler ::
  "('t::zero) worker \<Rightarrow> 't event list \<Rightarrow> 't job list \<times> 't loop_state" where
  "listen_to_scheduler w [] = ([], if status w \<noteq> ''closed'' then Polling else Left)"
| "listen_to_scheduler w (ev # evs) =
     (if status w \<noteq> ''closed'' then
        (case ev of
           Timeout \<Rightarrow> listen_to_scheduler w evs
         | Close \<Rightarrow> listen_to_scheduler (w\<lparr>status := ''closed''\<rparr>) evs
         | Arrival message \<Rightarrow>
             (case listen_to_scheduler_body message of
                Inl e \<Rightarrow> ([], Crashed e)
              | Inr j \<Rightarrow>
                  (case listen_to_scheduler w evs of (js, st) \<Rightarrow> (j # js, st))))
      else ([], Left))"

fun listen_to_workers ::
  "('t::zero) worker \<Rightarrow> 't event list \<Rightarrow> 't job list \<times> 't loop_state" where
  "listen_to_workers w [] = ([], if status w \<noteq> ''closed'' then Polling else Left)"
| "listen_to_workers w (ev # evs) =
     (if status w \<noteq> ''closed'' then
        (case ev of
           Timeout \<Rightarrow> listen_to_workers w evs
         | Close \<Rightarrow> listen_to_workers (w\<lparr>status := ''closed''\<rparr>) evs
         | Arrival message \<Rightarrow>
             (case listen_to_workers_body message of
                Inl e \<Rightarrow> ([], Crashed e)
              | Inr j \<Rightarrow>
                  (case listen_to_workers w evs of (js, st) \<Rightarrow> (j # js, st))))
      else ([], Left))"

text \<open>
  The pool runs the calls it was handed. In this sequential model a call runs from start
  to end before the next one starts; the list is the order in which they run, each with
  the environment it meets, and the store one call leaves is the store the next one finds.
  The order is any order: nothing ties it to the order of arrival.
\<close>

fun run_pool ::
  "('t::minus) worker \<Rightarrow> ('t env \<times> 't job) list \<Rightarrow> ('t job \<times> 't effects) list" where
  "run_pool w [] = []"
| "run_pool w ((env, j) # rest) =
     (let r = execute_and_reply env w j in (j, r) # run_pool (after r) rest)"

subsection \<open>Reading messages\<close>

text \<open>A message on the dealer socket is \<^verbatim>\<open>[header, payload]\<close>, one on the router
  socket \<^verbatim>\<open>[address, header, payload]\<close>.\<close>

fun header_frame :: "channel \<Rightarrow> 't frame list \<Rightarrow> 't frame option" where
  "header_frame Dealer [header, payload] = Some header"
| "header_frame Router [addr, header, payload] = Some header"
| "header_frame c fs = None"

fun payload_frame :: "channel \<Rightarrow> 't frame list \<Rightarrow> 't frame option" where
  "payload_frame Dealer [header, payload] = Some payload"
| "payload_frame Router [addr, header, payload] = Some payload"
| "payload_frame c fs = None"

text \<open>The entry of the header dict under a key, and the payload, as the receiver decodes
  them.\<close>

definition header_field :: "channel \<Rightarrow> 't frame list \<Rightarrow> string \<Rightarrow> 't pyval option" where
  "header_field c fs key =
     (case header_frame c fs of
        Some (Pickled (PDict kvs)) \<Rightarrow> map_of kvs (PStr key)
      | _ \<Rightarrow> None)"

definition payload_value :: "channel \<Rightarrow> 't frame list \<Rightarrow> 't pyval option" where
  "payload_value c fs =
     (case payload_frame c fs of
        Some (Pickled v) \<Rightarrow> Some v
      | _ \<Rightarrow> None)"

text \<open>The loop that reads a channel.\<close>

fun submit :: "channel \<Rightarrow> ('t::zero) frame list \<Rightarrow> 't pyval + 't job" where
  "submit Dealer message = listen_to_scheduler_body message"
| "submit Router message = listen_to_workers_body message"

subsection \<open>Peers\<close>

text \<open>
  The peers that \<^verbatim>\<open>collect\<close> asks are workers of this module. A peer at address
  \<open>a\<close> receives the request on its router socket behind the identity frame that the
  socket puts in front, runs \<^verbatim>\<open>listen_to_workers\<close> and \<^verbatim>\<open>execute_and_reply\<close>
  on it, and its reply comes back without the identity frame. No worker at the address,
  a peer whose loop raises on the request, and a peer that sends nothing all leave the
  requester without a reply.
\<close>

definition peer_net ::
  "('t::{minus,zero}) env \<Rightarrow> string \<Rightarrow> (string \<Rightarrow> 't worker option)
     \<Rightarrow> string \<Rightarrow> 't frame list \<Rightarrow> 't frame list option" where
  "peer_net penv ident peers a request =
     (case peers a of
        None \<Rightarrow> None
      | Some p \<Rightarrow>
          (case listen_to_workers_body (Raw ident # request) of
             Inl e \<Rightarrow> None
           | Inr j \<Rightarrow>
               (case sent (execute_and_reply penv p j) of
                  [Sent l Router (addr # reply)] \<Rightarrow> Some reply
                | _ \<Rightarrow> None)))"

subsection \<open>What a message carries\<close>

text \<open>The header of a reply as it leaves a send path: the two entries that
  \<^verbatim>\<open>execute_and_reply\<close> writes, and the address that the send path adds.\<close>

definition reply_header :: "'t worker \<Rightarrow> 't pyval \<Rightarrow> string \<Rightarrow> 't pyval" where
  "reply_header w jid st =
     PDict [(PStr ''jobid'', jid), (PStr ''status'', PStr st), (PStr ''address'', PStr (address w))]"

text \<open>The status and the result that the caller reads off the one message of a run, if
  the run sent one.\<close>

definition reply_of :: "'t effects \<Rightarrow> ('t pyval \<times> 't pyval) option" where
  "reply_of r =
     (case sent r of
        [Sent l c fs] \<Rightarrow>
          (case (header_field c fs ''status'', payload_value c fs) of
             (Some st, Some result) \<Rightarrow> Some (st, result)
           | _ \<Rightarrow> None)
      | _ \<Rightarrow> None)"

text \<open>The positional arguments that the call \<^verbatim>\<open>function(*args, **kwargs)\<close> hands
  over for a message: \<^verbatim>\<open>unpack_function\<close>, then the unpacking of \<^verbatim>\<open>*args\<close>.\<close>

definition positional_arguments :: "'t frame \<Rightarrow> 't frame \<Rightarrow> 't pyval + 't pyval list" where
  "positional_arguments header payload =
     then_do (unpack_function header payload) (\<lambda>u. star_args (u_args u))"

text \<open>The key and the value that \<^verbatim>\<open>collect\<close> reads off a reply, and the list of
  them over the sockets of one \<^verbatim>\<open>collect\<close>, in the order they are read.\<close>

fun reply_entry :: "'t frame list \<Rightarrow> ('t pyval \<times> 't pyval) option" where
  "reply_entry [Pickled (PDict kvs), Pickled v] =
     (case map_of kvs (PStr ''jobid'') of Some jid \<Rightarrow> Some (jid, v) | None \<Rightarrow> None)"
| "reply_entry fs = None"

fun fetched :: "'t env \<Rightarrow> 't sock list \<Rightarrow> ('t pyval \<times> 't pyval) list" where
  "fetched env [] = []"
| "fetched env ((a, request) # socks) =
     (case net env a request of
        None \<Rightarrow> fetched env socks
      | Some reply \<Rightarrow>
          (case reply_entry reply of
             None \<Rightarrow> fetched env socks
           | Some kv \<Rightarrow> kv # fetched env socks))"

subsection \<open>\<^verbatim>\<open>__init__\<close>\<close>

text \<open>
  The names that the module binds at top level, by its imports, assignments and
  definitions, in the order of the file. A name used in a method that is neither local nor
  in this list nor a builtin raises \<^verbatim>\<open>NameError\<close> when the statement runs; the
  name looked up below is no builtin.
\<close>

definition module_globals :: "string list" where
  "module_globals =
     [''print_function'', ''ComputeNode'', ''Thread'', ''Lock'', ''ThreadPool'',
      ''contextmanager'', ''uuid'', ''random'', ''multiprocessing'', ''zmq'', ''dask'',
      ''partial'', ''get'', ''curry'', ''time'', ''sys'', ''dumps'', ''loads'',
      ''HIGHEST_PROTOCOL'', ''DEBUG'', ''context'', ''f'', ''log'', ''logerrors'',
      ''Worker'', ''status'']"

definition global_name :: "string \<Rightarrow> 't pyval + unit" where
  "global_name name =
     (if name \<in> set module_globals then Inr () else Inl (PExc ''NameError'' [PStr name]))"

text \<open>\<^verbatim>\<open>'%d' % port\<close> for an integer.\<close>

fun decimal_nat :: "nat \<Rightarrow> string" where
  "decimal_nat n =
     (if n < 10 then [char_of (48 + n)]
      else decimal_nat (n div 10) @ [char_of (48 + n mod 10)])"

definition decimal :: "int \<Rightarrow> string" where
  "decimal i = (if i < 0 then CHR ''-'' # decimal_nat (nat (- i)) else decimal_nat (nat i))"

text \<open>
  What the machine gives the constructor: the host name, whether an address can be bound,
  and the lock object that \<^verbatim>\<open>Lock()\<close> creates.
\<close>

record machine =
  hostname :: string
  can_bind :: "string \<Rightarrow> bool"
  new_lock :: nat

text \<open>
  \<^verbatim>\<open>
    self.status = 'run'
    if address is None:
        if port is None:
            port = 6464
        address = 'tcp://%s:%d' % (socket.gethostname(), port)
    self.address = address
    self.dealer = context.socket(zmq.DEALER)
    self.dealer.setsockopt(zmq.IDENTITY, address)
    self.dealer.connect(scheduler)
    self.dealer.send_multipart(['', b'Register'])
    self.router = context.socket(zmq.ROUTER)
    self.router.bind(self.address)
    self.lock = Lock()
  \<close>
  The result is the messages written to the dealer socket and the worker, or the
  exception that ends the construction.
\<close>

definition default_address :: "machine \<Rightarrow> int option \<Rightarrow> 't pyval + string" where
  "default_address m port =
     (let port' = (case port of None \<Rightarrow> 6464 | Some p \<Rightarrow> p)
      in then_do (global_name ''socket'') (\<lambda>socket.
           Inr (''tcp://'' @ hostname m @ '':'' @ decimal port')))"

definition init ::
  "machine \<Rightarrow> string \<Rightarrow> 't store \<Rightarrow> string option \<Rightarrow> int option
     \<Rightarrow> 't frame list list \<times> ('t pyval + 't worker)" where
  "init m scheduler' data' address' port =
     (case (case address' of None \<Rightarrow> default_address m port | Some a \<Rightarrow> Inr a) of
        Inl e \<Rightarrow> ([], Inl e)
      | Inr a \<Rightarrow>
          (let register = [Raw [], Raw ''Register'']
           in if \<not> can_bind m a then ([register], Inl (PExc ''ZMQError'' []))
              else ([register],
                    Inr \<lparr>address = a, scheduler = scheduler', status = ''run'',
                         lock = new_lock m, data = data'\<rparr>)))"

subsection \<open>Threads writing to the two sockets\<close>

text \<open>
  Pool threads run their sends at the same time. A send is three kinds of step: the
  thread takes the lock of its \<^verbatim>\<open>with\<close> statement, waiting while another thread
  holds it; it writes the frames of the message to the socket, one after another; it
  gives the lock back.
\<close>

datatype 't action = Acquire nat | Write channel "'t frame" | Release nat

fun send_actions :: "'t message \<Rightarrow> 't action list" where
  "send_actions (Sent l c fs) = Acquire l # map (Write c) fs @ [Release l]"

text \<open>The threads with what each has left to do, who holds which lock, and the frames
  written so far, each with its thread and its socket.\<close>

record 't sys =
  threads :: "'t action list list"
  holder :: "nat \<rightharpoonup> nat"
  wire :: "(nat \<times> channel \<times> 't frame) list"

definition start :: "'t message list \<Rightarrow> 't sys" where
  "start msgs = \<lparr>threads = map send_actions msgs, holder = Map.empty, wire = []\<rparr>"

text \<open>Thread \<open>i\<close> is given the processor for one step. A thread that waits for a held
  lock, or has finished, leaves the state as it is.\<close>

definition thread_step :: "nat \<Rightarrow> 't sys \<Rightarrow> 't sys" where
  "thread_step i s =
     (if i < length (threads s) then
        (case threads s ! i of
           [] \<Rightarrow> s
         | Acquire l # rest \<Rightarrow>
             (if holder s l = None
              then s\<lparr>threads := (threads s)[i := rest], holder := (holder s)(l \<mapsto> i)\<rparr>
              else s)
         | Write c f # rest \<Rightarrow>
             s\<lparr>threads := (threads s)[i := rest], wire := wire s @ [(i, c, f)]\<rparr>
         | Release l # rest \<Rightarrow>
             s\<lparr>threads := (threads s)[i := rest], holder := (holder s)(l := None)\<rparr>)
      else s)"

text \<open>A schedule is the list of the threads that run, step by step: any list is a
  possible schedule.\<close>

fun run :: "'t sys \<Rightarrow> nat list \<Rightarrow> 't sys" where
  "run s [] = s"
| "run s (i # schedule) = run (thread_step i s) schedule"

text \<open>A thread is inside its critical section when it has taken the lock and has not
  given it back: its next step is a write or the release.\<close>

fun in_critical :: "'t action list \<Rightarrow> bool" where
  "in_critical (Write c f # rest) = True"
| "in_critical (Release l # rest) = True"
| "in_critical prog = False"

text \<open>
  Where a thread stands in a send under the lock \<open>L\<close>: before it (it will take the
  lock, write its frames and give the lock back), inside it (it holds the lock and has
  frames or the release left), or behind it.
\<close>

definition at_send_point :: "nat \<Rightarrow> 't sys \<Rightarrow> nat \<Rightarrow> bool" where
  "at_send_point L s i \<longleftrightarrow>
     (\<exists>c fs. threads s ! i = Acquire L # map (Write c) fs @ [Release L])
   \<or> (\<exists>c fs. threads s ! i = map (Write c) fs @ [Release L] \<and> holder s L = Some i)
   \<or> threads s ! i = []"

definition sends_under :: "nat \<Rightarrow> 't sys \<Rightarrow> bool" where
  "sends_under L s \<longleftrightarrow> (\<forall>i < length (threads s). at_send_point L s i)"

text \<open>
  The frames on the wire, seen with the sends under \<open>L\<close>: a thread before its send has
  written nothing, and the holder of the lock has written nothing yet or wrote the last
  frame. The wire is in blocks when the frames of each thread stand together: the list of
  the writing threads, runs of the same thread taken as one, names no thread twice.
\<close>

definition wire_in_blocks :: "'t sys \<Rightarrow> bool" where
  "wire_in_blocks s \<longleftrightarrow> distinct (remdups_adj (map fst (wire s)))"

definition wire_follows :: "nat \<Rightarrow> 't sys \<Rightarrow> bool" where
  "wire_follows L s \<longleftrightarrow>
     (\<forall>i < length (threads s).
        (\<exists>c fs. threads s ! i = Acquire L # map (Write c) fs @ [Release L]) \<longrightarrow>
        i \<notin> fst ` set (wire s))
   \<and> (\<forall>i. holder s L = Some i \<longrightarrow>
          i \<notin> fst ` set (wire s) \<or> (wire s \<noteq> [] \<and> fst (last (wire s)) = i))
   \<and> wire_in_blocks s"

subsection \<open>Concrete values\<close>

text \<open>A worker with an empty store, a peer that holds \<^verbatim>\<open>z = 5\<close>, and an
  environment in which the peer answers and the evaluator raises on every task.\<close>

definition w0 :: "int worker" where
  "w0 = \<lparr>address = ''tcp://bob:5000'', scheduler = ''tcp://sched:4000'', status = ''run'',
         lock = 0, data = Map.empty\<rparr>"

definition alice :: "int worker" where
  "alice = \<lparr>address = ''tcp://alice:5000'', scheduler = ''tcp://sched:4000'', status = ''run'',
            lock = 0, data = [PStr ''z'' \<mapsto> PInt 5]\<rparr>"

definition peers0 :: "string \<Rightarrow> int worker option" where
  "peers0 a = (if a = ''tcp://alice:5000'' then Some alice else None)"

definition env_null :: "int env" where
  "env_null = \<lparr>net = (\<lambda>a request. None), pick = (\<lambda>key. 0),
               evaluator = (\<lambda>d task. Inl (PExc ''Exception'' [])),
               clock = (\<lambda>n. 10 + 3 * int n), str_of = (\<lambda>v. ''?'')\<rparr>"

definition env0 :: "int env" where
  "env0 = env_null\<lparr>net := peer_net env_null ''id'' peers0\<rparr>"

definition hdr0 :: "int frame" where
  "hdr0 = Pickled (PDict [(PStr ''jobid'', PInt 123)])"

definition quiet_hdr0 :: "int frame" where
  "quiet_hdr0 = Pickled (PDict [(PStr ''jobid'', PInt 123), (PStr ''reply'', PFalse)])"

definition status_payload0 :: "int frame" where
  "status_payload0 = Pickled (PDict [(PStr ''function'', PStr ''status'')])"

definition nosuch_payload0 :: "int frame" where
  "nosuch_payload0 = Pickled (PDict [(PStr ''function'', PStr ''nosuch'')])"

definition job0 :: "int job" where
  "job0 = \<lparr>func = PStr ''status'', args = PTuple [], kwargs = PDict [], jobid = PInt 123,
           send = Some To_scheduler\<rparr>"

definition getitem_job0 :: "int job" where
  "getitem_job0 = \<lparr>func = PStr ''getitem'', args = PTuple [PStr ''x''], kwargs = PDict [],
                   jobid = PInt 7, send = Some To_scheduler\<rparr>"

definition locations0 :: "int pyval" where
  "locations0 = PDict [(PStr ''z'', PList [PStr ''tcp://alice:5000''])]"

definition msgs0 :: "int message list" where
  "msgs0 =
     [send_to_scheduler w0 [(PStr ''jobid'', PInt 1), (PStr ''status'', PStr ''OK'')] (PStr ''OK''),
      send_to_worker w0 (Raw ''id'') [(PStr ''jobid'', PInt 2), (PStr ''status'', PStr ''OK'')] (PStr ''OK'')]"

definition bob :: "int worker" where
  "bob = w0\<lparr>data := [PStr ''x'' \<mapsto> PInt 1]\<rparr>"

definition locations_xz :: "int pyval" where
  "locations_xz = PDict [(PStr ''x'', PList [PStr ''tcp://alice:5000'']),
                         (PStr ''z'', PList [PStr ''tcp://alice:5000''])]"

section \<open>Properties\<close>

subsection \<open>Chains of statements\<close>

lemma then_do_Inr_iff: "then_do m f = Inr y \<longleftrightarrow> (\<exists>x. m = Inr x \<and> f x = Inr y)"
  by (cases m) auto

subsection \<open>Decoding a request\<close>

lemma unpack_function_args:
  assumes "unpack_function header payload = Inr u"
  shows "\<exists>p a. loads payload = Inr p \<and> method_get p ''args'' (PTuple []) = Inr a
            \<and> u_args u = (if \<not> is_tuple a then PTuple [a] else a)"
  using assms by (auto simp: unpack_function_def then_do_Inr_iff)

lemma unpack_function_jobid:
  assumes "unpack_function header payload = Inr u"
  shows "\<exists>kvs. header = Pickled (PDict kvs)
           \<and> u_jobid u = (case map_of kvs (PStr ''jobid'') of Some v \<Rightarrow> v | None \<Rightarrow> PNone)
           \<and> u_reply u = (case map_of kvs (PStr ''reply'') of Some v \<Rightarrow> v | None \<Rightarrow> PTrue)"
proof -
  from assms obtain h where h: "loads header = Inr h"
    and j: "method_get h ''jobid'' PNone = Inr (u_jobid u)"
    and r: "method_get h ''reply'' PTrue = Inr (u_reply u)"
    by (auto simp: unpack_function_def then_do_Inr_iff)
  from j obtain kvs where "h = PDict kvs" by (cases h) auto
  with h j r show ?thesis
    by (cases header) (auto split: option.splits)
qed

lemma unpack_function_decode_failure:
  assumes "loads header = Inl e \<or> loads payload = Inl e"
  shows "unpack_function header payload = Inl e"
proof (cases payload)
  case (Raw bs)
  with assms show ?thesis
    by (cases header) (auto simp: unpack_function_def)
next
  case (Pickled v)
  with assms show ?thesis
    by (cases header) (auto simp: unpack_function_def)
qed

text \<open>What a loop body that hands a call to the pool has read from the header.\<close>

lemma submit_job:
  assumes "submit c request = Inr j"
  shows "\<exists>kvs. header_frame c request = Some (Pickled (PDict kvs))
           \<and> jobid j = (case map_of kvs (PStr ''jobid'') of Some v \<Rightarrow> v | None \<Rightarrow> PNone)
           \<and> (send j = None \<longleftrightarrow>
                \<not> truthy (case map_of kvs (PStr ''reply'') of Some v \<Rightarrow> v | None \<Rightarrow> PTrue))
           \<and> (c = Dealer \<longrightarrow> send j = None \<or> send j = Some To_scheduler)
           \<and> (c = Router \<longrightarrow> send j = None \<or> (\<exists>addr. send j = Some (To_worker addr)))"
proof (cases c)
  case Dealer
  with assms obtain header payload u where "request = [header, payload]"
    and "unpack_function header payload = Inr u"
    and "j = \<lparr>func = u_func u, args = u_args u, kwargs = u_kwargs u, jobid = u_jobid u,
                 send = (if truthy (u_reply u) then Some To_scheduler else None)\<rparr>"
    by (auto simp: listen_to_scheduler_body_def then_do_Inr_iff split: list.splits)
  with Dealer unpack_function_jobid [of header payload u] show ?thesis by auto
next
  case Router
  with assms obtain addr header payload u where "request = [addr, header, payload]"
    and "unpack_function header payload = Inr u"
    and "j = \<lparr>func = u_func u, args = u_args u, kwargs = u_kwargs u, jobid = u_jobid u,
                 send = (if truthy (u_reply u) then Some (To_worker addr) else None)\<rparr>"
    by (auto simp: listen_to_workers_body_def then_do_Inr_iff split: list.splits)
  with Router unpack_function_jobid [of header payload u] show ?thesis by auto
qed

text \<open>
  Claim C7, as amended. The positional arguments handed to the handler are always a tuple.
  An \<^verbatim>\<open>args\<close> field that is not a tuple (a single value, but also a list or any other
  sequence that is not a tuple) is wrapped into a one-element tuple; an \<^verbatim>\<open>args\<close>
  field that is a tuple has its elements passed as the positional arguments.
\<close>

theorem args_normalized_to_tuple:
  assumes "unpack_function header payload = Inr u"
      and "loads payload = Inr p"
      and "method_get p ''args'' (PTuple []) = Inr a"
  shows "u_args u = (if is_tuple a then a else PTuple [a])
       \<and> (\<exists>xs. u_args u = PTuple xs \<and> positional_arguments header payload = Inr xs)"
proof -
  from unpack_function_args [OF assms(1)] assms(2,3)
  have eq: "u_args u = (if is_tuple a then a else PTuple [a])" by auto
  show ?thesis
  proof (cases "is_tuple a")
    case True
    then obtain xs where "a = PTuple xs" by (cases a) auto
    with eq assms(1) show ?thesis by (simp add: positional_arguments_def)
  next
    case False
    with eq assms(1) show ?thesis by (simp add: positional_arguments_def)
  qed
qed

theorem args_normalized_to_tuple_witness:
  "u_args \<lparr>u_func = PStr ''getitem'', u_args = PTuple [PStr ''x''], u_kwargs = PDict [],
           u_jobid = PInt 123, u_reply = PTrue\<rparr> = PTuple [PStr ''x'' :: int pyval]
   \<and> positional_arguments hdr0
        (Pickled (PDict [(PStr ''function'', PStr ''getitem''), (PStr ''args'', PStr ''x'')]))
       = Inr [PStr ''x'']"
proof -
  let ?payload = "PDict [(PStr ''function'', PStr ''getitem''), (PStr ''args'', PStr ''x'' :: int pyval)]"
  let ?u = "\<lparr>u_func = PStr ''getitem'', u_args = PTuple [PStr ''x''], u_kwargs = PDict [],
           u_jobid = PInt 123, u_reply = PTrue :: int pyval\<rparr>"
  have 1: "unpack_function hdr0 (Pickled ?payload) = Inr ?u"
    by (simp add: unpack_function_def hdr0_def)
  have 2: "loads (Pickled ?payload) = Inr ?payload" by simp
  have 3: "method_get ?payload ''args'' (PTuple []) = Inr (PStr ''x'')" by simp
  from args_normalized_to_tuple [OF 1 2 3] show ?thesis by auto
qed

text \<open>Claim C7 as stated fails on a list: the list is a sequence, and its elements are not
  passed as the positional arguments; the handler gets the list as its one argument.\<close>

theorem list_args_counterexample:
  "positional_arguments hdr0
     (Pickled (PDict [(PStr ''function'', PStr ''setitem''),
                      (PStr ''args'', PList [PStr ''x'', PInt 10])]))
   = Inr [PList [PStr ''x'', PInt 10]]"
  by (simp add: positional_arguments_def unpack_function_def hdr0_def)

subsection \<open>The polling loops\<close>

text \<open>
  Claim C2, as amended. When the header or the payload of an arriving message fails to
  decode, the exception is raised in the polling loop itself, before any call is handed to
  the pool: the loop ends with that exception, no call runs for the message, and the
  messages behind it are not read.
\<close>

theorem decode_failure_ends_polling_loop:
  assumes "status w \<noteq> ''closed''"
      and "loads header = Inl e \<or> loads payload = Inl e"
  shows "listen_to_scheduler w (Arrival [header, payload] # evs) = ([], Crashed e)
       \<and> listen_to_workers w (Arrival [addr, header, payload] # evs) = ([], Crashed e)"
  using assms(1) unpack_function_decode_failure [OF assms(2)]
  by (simp add: listen_to_scheduler_body_def listen_to_workers_body_def)

theorem decode_failure_ends_polling_loop_witness:
  "listen_to_scheduler w0 (Arrival [Raw ''junk'', status_payload0] # [Timeout])
     = ([], Crashed (PExc ''UnpicklingError'' []))
   \<and> listen_to_workers w0 (Arrival [Raw ''id'', Raw ''junk'', status_payload0] # [Timeout])
     = ([], Crashed (PExc ''UnpicklingError'' []))"
proof -
  have 1: "status w0 \<noteq> ''closed''" by (simp add: w0_def)
  have 2: "loads (Raw ''junk'' :: int frame) = Inl (PExc ''UnpicklingError'' [])
         \<or> loads status_payload0 = Inl (PExc ''UnpicklingError'' [])" by simp
  from decode_failure_ends_polling_loop [OF 1 2] show ?thesis .
qed

text \<open>Claim C2 as stated fails: a message with a malformed header ends the loop with the
  decoding exception; no call is handed to the pool, so no reply with status
  \<^verbatim>\<open>'Error'\<close> is sent, and the well-formed message behind it is never read.\<close>

theorem decode_failure_counterexample:
  "listen_to_scheduler w0
     [Arrival [Raw ''junk'', status_payload0], Arrival [hdr0, status_payload0]]
   = ([], Crashed (PExc ''UnpicklingError'' []))"
  by (simp add: w0_def listen_to_scheduler_body_def unpack_function_def status_payload0_def)

subsection \<open>The reply of a call\<close>

lemma send_to_scheduler_reply:
  "send_to_scheduler w [(PStr ''jobid'', jid), (PStr ''status'', PStr st)] result
     = Sent (lock w) Dealer [Pickled (reply_header w jid st), Pickled result]"
  by (simp add: send_to_scheduler_def reply_header_def dumps_def)

lemma send_to_worker_reply:
  "send_to_worker w addr [(PStr ''jobid'', jid), (PStr ''status'', PStr st)] result
     = Sent (lock w) Router [addr, Pickled (reply_header w jid st), Pickled result]"
  by (simp add: send_to_worker_def reply_header_def dumps_def)

text \<open>Every message of a run is the reply to its call: it goes through the send path that
  the call was given, and its header carries the job identifier of the call.\<close>

lemma execute_and_reply_sent:
  assumes "m \<in> set (sent (execute_and_reply env w j))"
  shows "\<exists>w' socks st result.
           execute env w (func j) (args j) (kwargs j) = (w', socks, Verdict st result)
           \<and> ((send j = Some To_scheduler
                \<and> m = Sent (lock w') Dealer [Pickled (reply_header w' (jobid j) st), Pickled result])
             \<or> (\<exists>addr. send j = Some (To_worker addr)
                \<and> m = Sent (lock w') Router
                         [addr, Pickled (reply_header w' (jobid j) st), Pickled result]))"
proof -
  obtain w' socks v where ex: "execute env w (func j) (args j) (kwargs j) = (w', socks, v)"
    by (cases "execute env w (func j) (args j) (kwargs j)") auto
  show ?thesis
  proof (cases v)
    case (Verdict st result)
    show ?thesis
    proof (cases "send j")
      case None
      with assms ex Verdict show ?thesis by (simp add: execute_and_reply_def)
    next
      case (Some s)
      with assms ex Verdict show ?thesis
        by (cases s)
           (simp_all add: execute_and_reply_def send_to_scheduler_reply send_to_worker_reply)
    qed
  next
    case (Escapes e)
    with assms ex show ?thesis by (simp add: execute_and_reply_def)
  next
    case Never
    with assms ex show ?thesis by (simp add: execute_and_reply_def)
  qed
qed

lemma reply_of_verdict:
  assumes "execute env w (func j) (args j) (kwargs j) = (w', socks, Verdict st result)"
      and "send j = Some s"
  shows "reply_of (execute_and_reply env w j) = Some (PStr st, result)"
  using assms
  by (cases s)
     (simp_all add: reply_of_def execute_and_reply_def send_to_scheduler_reply
        send_to_worker_reply header_field_def payload_value_def reply_header_def)

lemma run_pool_member:
  "(j, r) \<in> set (run_pool w order) \<Longrightarrow> \<exists>env w'. r = execute_and_reply env w' j"
  by (induction w order rule: run_pool.induct) (auto simp: Let_def)

text \<open>A call that was given a send path and comes to its end has sent one message.\<close>

lemma reply_sent_when_call_ends:
  assumes "send j = Some s" and "ending (execute_and_reply env w j) = Return PNone"
  shows "\<exists>m. sent (execute_and_reply env w j) = [m]"
proof -
  obtain w' socks v where ex: "execute env w (func j) (args j) (kwargs j) = (w', socks, v)"
    by (cases "execute env w (func j) (args j) (kwargs j)") auto
  with assms show ?thesis
    by (cases v; cases s) (simp_all add: execute_and_reply_def)
qed

text \<open>
  Claim C1. A request arrives on a channel with a job identifier in its header, and its
  loop hands the call to the pool. The pool runs the calls it holds in any order, any
  number of them, each on the store that the calls before it left. Every message that the
  run of this call sends goes out on the channel the request came in on, and the job
  identifier in its header is the one of the request.
\<close>

theorem reply_jobid_is_request_jobid:
  assumes "submit c request = Inr j"
      and "header_field c request ''jobid'' = Some jid"
      and "(j, r) \<in> set (run_pool w order)"
      and "Sent l c' reply \<in> set (sent r)"
  shows "c' = c \<and> header_field c' reply ''jobid'' = Some jid"
proof -
  from submit_job [OF assms(1)] assms(2)
  have jid: "jobid j = jid"
    and snd: "c = Dealer \<longrightarrow> send j = None \<or> send j = Some To_scheduler"
             "c = Router \<longrightarrow> send j = None \<or> (\<exists>addr. send j = Some (To_worker addr))"
    by (auto simp: header_field_def)
  from run_pool_member [OF assms(3)] obtain env w' where "r = execute_and_reply env w' j"
    by blast
  with assms(4) have "Sent l c' reply \<in> set (sent (execute_and_reply env w' j))" by simp
  from execute_and_reply_sent [OF this] jid snd show ?thesis
    by (cases c) (auto simp: header_field_def reply_header_def)
qed

theorem reply_jobid_is_request_jobid_witness:
  "Dealer = Dealer
   \<and> header_field Dealer [Pickled (reply_header w0 (PInt 123) ''OK''), Pickled (PStr ''OK'')]
         ''jobid''
       = Some (PInt 123)"
proof -
  have 1: "submit Dealer [hdr0, status_payload0] = Inr job0"
    by (simp add: listen_to_scheduler_body_def unpack_function_def hdr0_def
          status_payload0_def job0_def)
  have 2: "header_field Dealer [hdr0, status_payload0] ''jobid'' = Some (PInt 123)"
    by (simp add: header_field_def hdr0_def)
  have e: "execute_and_reply env_null w0 job0
         = \<lparr>after = w0, requests = [],
            sent = [Sent 0 Dealer [Pickled (reply_header w0 (PInt 123) ''OK''),
                                   Pickled (PStr ''OK'')]],
            ending = Return PNone\<rparr>"
    by (simp add: execute_and_reply_def execute_def lookup_function_def self_functions_def
          status_fn_def send_to_scheduler_reply job0_def w0_def)
  have 3: "(job0, execute_and_reply env_null w0 job0) \<in> set (run_pool w0 [(env_null, job0)])"
    by (simp add: Let_def)
  have 4: "Sent 0 Dealer [Pickled (reply_header w0 (PInt 123) ''OK''), Pickled (PStr ''OK'')]
             \<in> set (sent (execute_and_reply env_null w0 job0))"
    by (simp add: e)
  from reply_jobid_is_request_jobid [OF 1 2 3 4] show ?thesis .
qed

text \<open>
  Claim C6. A request whose header has a false \<^verbatim>\<open>reply\<close> entry is handed to the pool
  without a send path, and its run writes no message to either channel, whatever the
  function name and the arguments are and however the call ends.
\<close>

theorem no_reply_when_not_wanted:
  assumes "submit c request = Inr j"
      and "header_field c request ''reply'' = Some v"
      and "\<not> truthy v"
  shows "sent (execute_and_reply env w j) = []"
proof -
  from submit_job [OF assms(1)] assms(2,3) have "send j = None"
    by (auto simp: header_field_def)
  then show ?thesis
    by (auto simp: execute_and_reply_def Let_def split: prod.splits verdict.splits)
qed

theorem no_reply_when_not_wanted_witness:
  "sent (execute_and_reply env0 w0
           \<lparr>func = PStr ''nosuch'', args = PTuple [], kwargs = PDict [], jobid = PInt 123,
            send = None\<rparr>) = []"
proof -
  have 1: "submit Dealer [quiet_hdr0, nosuch_payload0]
             = Inr \<lparr>func = PStr ''nosuch'', args = PTuple [], kwargs = PDict [],
                    jobid = PInt 123, send = None\<rparr>"
    by (simp add: listen_to_scheduler_body_def unpack_function_def quiet_hdr0_def
          nosuch_payload0_def)
  have 2: "header_field Dealer [quiet_hdr0, nosuch_payload0] ''reply'' = Some PFalse"
    by (simp add: header_field_def quiet_hdr0_def)
  have 3: "\<not> truthy (PFalse :: int pyval)" by simp
  from no_reply_when_not_wanted [OF 1 2 3] show ?thesis .
qed

subsection \<open>The status of a reply\<close>

lemma execute_not_found:
  assumes "map_of self_functions name = None"
  shows "execute env w (PStr name) a k
           = (w, [], Verdict (''Function '' @ name @ '' not found'') (KeyError (PStr name)))"
  using assms
  by (simp add: execute_def lookup_function_def handle_exception_def py_str_def)

lemma execute_handler_KeyError:
  assumes "lookup_function f = Inr h"
      and "star_args a = Inr pos"
      and "star_kwargs k = Inr kw"
      and "call env w h pos kw = (w', socks, Raise (PExc ''KeyError'' x))"
  shows "execute env w f a k = (w', socks, Verdict ''Error'' (PExc ''KeyError'' x))"
proof -
  from assms(1) have "hashable f" "in_functions f"
    by (auto simp: lookup_function_def split: if_splits pyval.splits option.splits)
  with assms show ?thesis
    by (simp add: execute_def handle_exception_def)
qed

lemma lookup_getitem: "lookup_function (PStr ''getitem'') = Inr H_getitem"
  by (simp add: lookup_function_def self_functions_def)

lemma lookup_delitem: "lookup_function (PStr ''delitem'') = Inr H_delitem"
  by (simp add: lookup_function_def self_functions_def)

text \<open>
  Claim C3. For a call that was given a send path: when the function name is a string
  that is not in the registry, the reply has the status
  \<^verbatim>\<open>'Function <name> not found'\<close>, which is neither \<^verbatim>\<open>'OK'\<close> nor
  \<^verbatim>\<open>'Error'\<close>, and the result is the \<^verbatim>\<open>KeyError\<close> of the lookup; when the name
  is registered and the handler raises \<^verbatim>\<open>KeyError\<close>, the status is
  \<^verbatim>\<open>'Error'\<close> and the result is that exception; \<^verbatim>\<open>getitem\<close> and
  \<^verbatim>\<open>delitem\<close> on an absent key are such calls.
\<close>

theorem not_found_status_and_KeyError_status:
  assumes "send j = Some s"
  shows "(func j = PStr name \<and> map_of self_functions name = None \<longrightarrow>
            reply_of (execute_and_reply env w j)
              = Some (PStr (''Function '' @ name @ '' not found''), KeyError (PStr name))
            \<and> ''Function '' @ name @ '' not found'' \<noteq> ''OK''
            \<and> ''Function '' @ name @ '' not found'' \<noteq> ''Error'')
       \<and> (lookup_function (func j) = Inr h \<and> star_args (args j) = Inr pos
            \<and> star_kwargs (kwargs j) = Inr kw
            \<and> call env w h pos kw = (w', socks, Raise (PExc ''KeyError'' x)) \<longrightarrow>
            reply_of (execute_and_reply env w j) = Some (PStr ''Error'', PExc ''KeyError'' x))
       \<and> ((func j = PStr ''getitem'' \<or> func j = PStr ''delitem'') \<and> args j = PTuple [k]
            \<and> kwargs j = PDict [] \<and> hashable k \<and> data w k = None \<longrightarrow>
            reply_of (execute_and_reply env w j) = Some (PStr ''Error'', KeyError k))"
proof (intro conjI impI)
  assume a: "func j = PStr name \<and> map_of self_functions name = None"
  then have "execute env w (func j) (args j) (kwargs j)
           = (w, [], Verdict (''Function '' @ name @ '' not found'') (KeyError (PStr name)))"
    by (simp add: execute_not_found)
  from reply_of_verdict [OF this assms]
  show "reply_of (execute_and_reply env w j)
              = Some (PStr (''Function '' @ name @ '' not found''), KeyError (PStr name))" .
  show "''Function '' @ name @ '' not found'' \<noteq> ''OK''" by simp
  show "''Function '' @ name @ '' not found'' \<noteq> ''Error''" by simp
next
  assume "lookup_function (func j) = Inr h \<and> star_args (args j) = Inr pos
            \<and> star_kwargs (kwargs j) = Inr kw
            \<and> call env w h pos kw = (w', socks, Raise (PExc ''KeyError'' x))"
  then have "execute env w (func j) (args j) (kwargs j)
               = (w', socks, Verdict ''Error'' (PExc ''KeyError'' x))"
    by (simp add: execute_handler_KeyError)
  from reply_of_verdict [OF this assms]
  show "reply_of (execute_and_reply env w j) = Some (PStr ''Error'', PExc ''KeyError'' x)" .
next
  assume a: "(func j = PStr ''getitem'' \<or> func j = PStr ''delitem'') \<and> args j = PTuple [k]
            \<and> kwargs j = PDict [] \<and> hashable k \<and> data w k = None"
  then have "execute env w (func j) (args j) (kwargs j) = (w, [], Verdict ''Error'' (KeyError k))"
  proof (elim conjE disjE)
    assume "func j = PStr ''getitem''" "args j = PTuple [k]" "kwargs j = PDict []"
      "hashable k" "data w k = None"
    then show ?thesis
      by (intro execute_handler_KeyError [where h = H_getitem and pos = "[k]" and kw = "[]"])
         (simp_all add: lookup_getitem getitem_def)
  next
    assume "func j = PStr ''delitem''" "args j = PTuple [k]" "kwargs j = PDict []"
      "hashable k" "data w k = None"
    then show ?thesis
      by (intro execute_handler_KeyError [where h = H_delitem and pos = "[k]" and kw = "[]"])
         (simp_all add: lookup_delitem delitem_def)
  qed
  from reply_of_verdict [OF this assms]
  show "reply_of (execute_and_reply env w j) = Some (PStr ''Error'', KeyError k)" .
qed

theorem not_found_status_and_KeyError_status_witness:
  "reply_of (execute_and_reply env0 w0 (job0\<lparr>func := PStr ''nosuch''\<rparr>))
     = Some (PStr ''Function nosuch not found'', KeyError (PStr ''nosuch''))
   \<and> reply_of (execute_and_reply env0 w0 getitem_job0) = Some (PStr ''Error'', KeyError (PStr ''x''))"
proof -
  have s1: "send (job0\<lparr>func := PStr ''nosuch''\<rparr>) = Some To_scheduler" by (simp add: job0_def)
  have f1: "func (job0\<lparr>func := PStr ''nosuch''\<rparr>) = PStr ''nosuch''
          \<and> map_of self_functions ''nosuch'' = None"
    by (simp add: self_functions_def)
  have s2: "send getitem_job0 = Some To_scheduler" by (simp add: getitem_job0_def)
  have f2: "(func getitem_job0 = PStr ''getitem'' \<or> func getitem_job0 = PStr ''delitem'')
          \<and> args getitem_job0 = PTuple [PStr ''x''] \<and> kwargs getitem_job0 = PDict []
          \<and> hashable (PStr ''x'' :: int pyval) \<and> data w0 (PStr ''x'') = None"
    by (simp add: getitem_job0_def w0_def)
  from not_found_status_and_KeyError_status [OF s1, of "''nosuch''" env0 w0] f1
       not_found_status_and_KeyError_status [OF s2, of _ env0 w0 _ _ _ _ _ _ "PStr ''x''"] f2
  show ?thesis by simp
qed

subsection \<open>\<^verbatim>\<open>collect\<close>\<close>

text \<open>A reply that \<^verbatim>\<open>collect\<close> accepts is stored under the job identifier of its
  header.\<close>

lemma store_reply_Inr:
  assumes "store_reply w reply = Inr w'"
  shows "\<exists>jid v. reply_entry reply = Some (jid, v) \<and> w' = w\<lparr>data := (data w)(jid \<mapsto> v)\<rparr>"
proof -
  from assms obtain header payload where r: "reply = [header, payload]"
    by (auto simp: store_reply_def split: list.splits)
  with assms obtain h v sender jid where "loads header = Inr h" "loads payload = Inr v"
    and "subscript h ''address'' = Inr sender" and j: "subscript h ''jobid'' = Inr jid"
    and w': "w' = w\<lparr>data := (data w)(jid \<mapsto> v)\<rparr>"
    by (auto simp: store_reply_def then_do_Inr_iff split: if_splits)
  moreover from j obtain kvs where "h = PDict kvs" by (cases h) auto
  ultimately show ?thesis using r
    by (cases header; cases payload) (auto split: option.splits)
qed

text \<open>When the second loop comes to its end, the store is the old one overwritten with
  the replies, a later reply over an earlier one.\<close>

lemma collect_replies_store:
  assumes "collect_replies env w socks = (w1, Return x)"
  shows "w1 = w\<lparr>data := data w ++ map_of (rev (fetched env socks))\<rparr>"
  using assms
proof (induction socks arbitrary: w)
  case Nil
  then show ?case by simp
next
  case (Cons s socks)
  obtain a request where s: "s = (a, request)" by (cases s)
  with Cons.prems obtain reply w' where n: "net env a request = Some reply"
    and sr: "store_reply w reply = Inr w'"
    and rest: "collect_replies env w' socks = (w1, Return x)"
    by (auto split: option.splits sum.splits)
  from store_reply_Inr [OF sr] obtain jid v where e: "reply_entry reply = Some (jid, v)"
    and w': "w' = w\<lparr>data := (data w)(jid \<mapsto> v)\<rparr>" by blast
  from Cons.IH [OF rest]
  have "w1 = w'\<lparr>data := data w' ++ map_of (rev (fetched env socks))\<rparr>" .
  then have w1: "w1 = w\<lparr>data := (data w)(jid \<mapsto> v) ++ map_of (rev (fetched env socks))\<rparr>"
    by (simp add: w')
  have m: "(data w)(jid \<mapsto> v) ++ map_of (rev (fetched env socks))
       = data w ++ map_of (rev (fetched env socks) @ [(jid, v)])"
    by (rule ext) (simp add: map_add_def split: option.splits)
  have f: "fetched env (s # socks) = (jid, v) # fetched env socks"
    by (simp add: s n e)
  show ?case
    unfolding w1 m f by simp
qed

lemma collect_Return:
  assumes "collect env w locations = (w1, socks, Return x)"
  shows "w1 = w\<lparr>data := data w ++ map_of (rev (fetched env socks))\<rparr>"
proof -
  from assms obtain items where "locations = PDict items"
    by (cases locations) (auto simp: collect_def)
  with assms have "collect_replies env w socks = (w1, Return x)"
    by (auto simp: collect_def split: prod.splits option.splits)
  then show ?thesis by (rule collect_replies_store)
qed

text \<open>The first loop asks only for keys that the store does not hold.\<close>

lemma collect_requests_keys:
  "(a, request) \<in> set (fst (collect_requests env w items)) \<Longrightarrow>
     \<exists>key. request = getitem_request (address w) key \<and> data w key = None"
proof (induction items)
  case Nil
  then show ?case by simp
next
  case (Cons item items)
  obtain key locs where item: "item = (key, locs)" by (cases item)
  from Cons show ?case
    by (auto simp: item split: if_splits sum.splits prod.splits)
qed

lemma getitem_request_inj:
  "getitem_request self key = getitem_request self' key' \<Longrightarrow> key = key'"
  by (simp add: getitem_request_def dumps_def)

text \<open>A peer reads the request as a call of \<^verbatim>\<open>getitem\<close> with the key as job
  identifier, so its reply comes back under that key.\<close>

lemma listen_to_workers_body_getitem_request:
  "listen_to_workers_body (Raw ident # getitem_request self key)
     = Inr \<lparr>func = PStr ''getitem'', args = PTuple [key], kwargs = PDict [], jobid = key,
            send = Some (To_worker (Raw ident))\<rparr>"
  by (simp add: listen_to_workers_body_def getitem_request_def unpack_function_def dumps_def)

lemma peer_net_reply:
  assumes "peer_net penv ident peers a (getitem_request self key) = Some reply"
  shows "\<exists>p st v. reply = [Pickled (reply_header p key st), Pickled v]"
proof -
  let ?j = "\<lparr>func = PStr ''getitem'', args = PTuple [key], kwargs = PDict [], jobid = key,
            send = Some (To_worker (Raw ident))\<rparr>"
  from assms obtain p l addr where p: "peers a = Some p"
    and s: "sent (execute_and_reply penv p ?j) = [Sent l Router (addr # reply)]"
    by (auto simp: peer_net_def listen_to_workers_body_getitem_request
             split: option.splits list.splits message.splits channel.splits)
  then have "Sent l Router (addr # reply) \<in> set (sent (execute_and_reply penv p ?j))" by simp
  from execute_and_reply_sent [OF this] show ?thesis
    by auto
qed

lemma store_reply_peer:
  assumes "store_reply w [Pickled (reply_header p key st), Pickled v] = Inr w'"
  shows "w' = w\<lparr>data := (data w)(key \<mapsto> v)\<rparr>"
  using assms
  by (auto simp: store_reply_def reply_header_def split: if_splits)

lemma collect_replies_frame:
  assumes "collect_replies (env\<lparr>net := peer_net penv ident peers\<rparr>) w socks = (w1, out)"
      and "\<forall>(a, request) \<in> set socks. \<exists>key. request = getitem_request self key \<and> key \<noteq> k"
  shows "data w1 k = data w k"
  using assms
proof (induction socks arbitrary: w)
  case Nil
  then show ?case by auto
next
  case (Cons s socks)
  obtain a request where s: "s = (a, request)" by (cases s)
  with Cons.prems(2) obtain key where key: "request = getitem_request self key" "key \<noteq> k"
    by auto
  show ?case
  proof (cases "peer_net penv ident peers a request")
    case None
    with Cons.prems s show ?thesis by auto
  next
    case (Some reply)
    from peer_net_reply [OF Some [unfolded key(1)]] obtain v p st
      where reply: "reply = [Pickled (reply_header p key st), Pickled v]" by blast
    show ?thesis
    proof (cases "store_reply w reply")
      case (Inl e)
      with Cons.prems s Some show ?thesis by auto
    next
      case (Inr w')
      with Cons.prems s Some
      have "collect_replies (env\<lparr>net := peer_net penv ident peers\<rparr>) w' socks = (w1, out)"
        by simp
      moreover from Cons.prems(2)
      have "\<forall>(a, request) \<in> set socks. \<exists>key. request = getitem_request self key \<and> key \<noteq> k"
        by simp
      ultimately have "data w1 k = data w' k" by (rule Cons.IH)
      moreover from store_reply_peer [OF Inr [unfolded reply]] key(2)
      have "data w' k = data w k" by simp
      ultimately show ?thesis by simp
    qed
  qed
qed

lemma collect_not_a_dict:
  assumes "\<forall>items. locations \<noteq> PDict items"
  shows "collect env w locations = (w, [], Raise AttributeError)"
  using assms by (cases locations) (simp_all add: collect_def)

text \<open>
  Claim C5. The peers are workers of this module. When the store holds a key \<open>k\<close>,
  \<^verbatim>\<open>collect\<close> leaves the value of \<open>k\<close> as it is and sends no request for \<open>k\<close>,
  whatever the locations are and however \<^verbatim>\<open>collect\<close> ends.
\<close>

theorem collect_skips_present_key:
  assumes "data w k = Some v"
  shows "data (fst (collect (env\<lparr>net := peer_net penv ident peers\<rparr>) w locations)) k = Some v
       \<and> (\<forall>(a, request) \<in> set (fst (snd (collect (env\<lparr>net := peer_net penv ident peers\<rparr>)
                                                w locations))).
            request \<noteq> getitem_request (address w) k)"
proof (cases "\<exists>items. locations = PDict items")
  case False
  then have "collect (env\<lparr>net := peer_net penv ident peers\<rparr>) w locations
               = (w, [], Raise AttributeError)"
    by (intro collect_not_a_dict) simp
  with assms show ?thesis by simp
next
  case True
  then obtain items where PDict: "locations = PDict items" by blast
  let ?env = "env\<lparr>net := peer_net penv ident peers\<rparr>"
  obtain w1 socks out where c: "collect ?env w locations = (w1, socks, out)"
    by (cases "collect ?env w locations") auto
  obtain socks' exc where cr: "collect_requests ?env w items = (socks', exc)"
    by (cases "collect_requests ?env w items")
  have keys: "\<forall>(a, request) \<in> set socks'.
                \<exists>key. request = getitem_request (address w) key \<and> key \<noteq> k"
  proof clarify
    fix a request assume "(a, request) \<in> set socks'"
    with cr have "(a, request) \<in> set (fst (collect_requests ?env w items))" by simp
    from collect_requests_keys [OF this] assms
    show "\<exists>key. request = getitem_request (address w) key \<and> key \<noteq> k" by auto
  qed
  have socks: "socks = socks'"
    using c PDict cr by (auto simp: collect_def split: option.splits prod.splits)
  have "data w1 k = data w k"
  proof (cases exc)
    case (Some e)
    with c PDict cr show ?thesis by (simp add: collect_def)
  next
    case None
    with c PDict cr obtain out' where "collect_replies ?env w socks' = (w1, out')"
      by (auto simp: collect_def split: prod.splits)
    from collect_replies_frame [OF this keys] show ?thesis .
  qed
  moreover from keys socks
  have "\<forall>(a, request) \<in> set socks. request \<noteq> getitem_request (address w) k"
    by (auto dest: getitem_request_inj)
  ultimately show ?thesis using assms c by simp
qed

lemma collect_bob:
  "collect env0 bob locations_xz
     = (bob\<lparr>data := [PStr ''x'' \<mapsto> PInt 1, PStr ''z'' \<mapsto> PInt 5]\<rparr>,
        [(''tcp://alice:5000'', getitem_request ''tcp://bob:5000'' (PStr ''z''))],
        Return PNone)"
  by (simp add: collect_def locations_xz_def bob_def w0_def env0_def env_null_def
        peer_net_def peers0_def alice_def listen_to_workers_body_getitem_request
        execute_and_reply_def execute_def lookup_function_def self_functions_def getitem_def
        send_to_worker_reply store_reply_def reply_header_def)

theorem collect_skips_present_key_witness:
  "data (bob\<lparr>data := [PStr ''x'' \<mapsto> PInt 1, PStr ''z'' \<mapsto> PInt 5]\<rparr>) (PStr ''x'')
     = Some (PInt 1)
   \<and> getitem_request ''tcp://bob:5000'' (PStr ''z'' :: int pyval)
       \<noteq> getitem_request (address bob) (PStr ''x'')"
proof -
  have 1: "data bob (PStr ''x'') = Some (PInt 1)" by (simp add: bob_def w0_def)
  from collect_skips_present_key
         [OF 1, where env = env_null and penv = env_null and ident = "''id''"
            and peers = peers0 and locations = locations_xz]
  show ?thesis
    unfolding env0_def [symmetric] collect_bob by simp
qed

subsection \<open>\<^verbatim>\<open>compute\<close>\<close>

lemma collect_w0:
  "collect env0 w0 locations0
     = (w0\<lparr>data := [PStr ''z'' \<mapsto> PInt 5]\<rparr>,
        [(''tcp://alice:5000'', getitem_request ''tcp://bob:5000'' (PStr ''z''))],
        Return PNone)"
  by (simp add: collect_def locations0_def w0_def env0_def env_null_def
        peer_net_def peers0_def alice_def listen_to_workers_body_getitem_request
        execute_and_reply_def execute_def lookup_function_def self_functions_def getitem_def
        send_to_worker_reply store_reply_def reply_header_def)

lemma evaluator_env0: "evaluator env0 d task = Inl (PExc ''Exception'' [])"
  by (simp add: env0_def env_null_def)

lemma clock_env0: "clock env0 (Suc 0) - clock env0 0 = 3"
  by (simp add: env0_def env_null_def)

text \<open>
  Claim C4, as amended. When \<^verbatim>\<open>collect\<close> has returned and the evaluator raises,
  \<^verbatim>\<open>compute\<close> returns a record with the key, with the duration (the second clock
  reading minus the first) and with the raised exception as status, which is not
  \<^verbatim>\<open>'OK'\<close>; and it writes nothing to the store after \<^verbatim>\<open>collect\<close>: the store
  afterwards is the one that \<^verbatim>\<open>collect\<close> left, the old store overwritten with the
  replies of the peers. The target key is in it exactly when it was in the old store or a
  reply came under it.
\<close>

theorem compute_failure_record:
  assumes "collect env w locations = (w1, socks, Return x)"
      and "evaluator env (data w1) task = Inl (PExc n a)"
  shows "compute env w key task locations
           = (w1, socks, Return (PDict [(PStr ''key'', key),
                                        (PStr ''duration'', PFloat (clock env 1 - clock env 0)),
                                        (PStr ''status'', PExc n a)]))
       \<and> PExc n a \<noteq> PStr ''OK''
       \<and> data w1 = data w ++ map_of (rev (fetched env socks))"
  using assms collect_Return [OF assms(1)]
  by (simp add: compute_def Let_def outcome_record_def)

theorem compute_failure_record_witness:
  "compute env0 w0 (PStr ''y'') (PStr ''task'') locations0
     = (w0\<lparr>data := [PStr ''z'' \<mapsto> PInt 5]\<rparr>,
        [(''tcp://alice:5000'', getitem_request ''tcp://bob:5000'' (PStr ''z''))],
        Return (PDict [(PStr ''key'', PStr ''y''), (PStr ''duration'', PFloat 3),
                       (PStr ''status'', PExc ''Exception'' [])]))"
proof -
  from compute_failure_record
         [OF collect_w0 evaluator_env0, where task = "PStr ''task''" and key = "PStr ''y''",
          THEN conjunct1]
  show ?thesis by (simp add: clock_env0)
qed

text \<open>Claim C4 as stated fails when a location is given for the target key itself: the
  key is not in the store before, the evaluator raises, and the key is in the store
  afterwards, with the value that \<^verbatim>\<open>collect\<close> fetched from the peer.\<close>

theorem compute_failure_counterexample:
  "data w0 (PStr ''z'') = None
   \<and> data (fst (compute env0 w0 (PStr ''z'') (PStr ''task'') locations0)) (PStr ''z'')
       = Some (PInt 5)
   \<and> snd (snd (compute env0 w0 (PStr ''z'') (PStr ''task'') locations0))
       = Return (PDict [(PStr ''key'', PStr ''z''), (PStr ''duration'', PFloat 3),
                        (PStr ''status'', PExc ''Exception'' [])])"
proof -
  have "compute env0 w0 (PStr ''z'') (PStr ''task'') locations0
          = (w0\<lparr>data := [PStr ''z'' \<mapsto> PInt 5]\<rparr>,
             [(''tcp://alice:5000'', getitem_request ''tcp://bob:5000'' (PStr ''z''))],
             Return (PDict [(PStr ''key'', PStr ''z''), (PStr ''duration'', PFloat 3),
                            (PStr ''status'', PExc ''Exception'' [])]))"
    by (simp add: compute_def collect_w0 evaluator_env0 clock_env0 outcome_record_def)
  then show ?thesis by (simp add: w0_def)
qed

text \<open>
  Claim C10. When \<^verbatim>\<open>collect\<close> has returned, the store it left is the old store
  overwritten with the replies of the peers, each under the job identifier of its header,
  and the evaluator runs on that store. When the evaluator raises, the worker after
  \<^verbatim>\<open>compute\<close> is the worker that \<^verbatim>\<open>collect\<close> left, so every key that a reply
  came under is in the store; when the evaluator returns, the one further write is the
  result under the target key.
\<close>

theorem compute_failure_keeps_collected:
  assumes "collect env w locations = (w1, socks, Return x)"
  shows "data w1 = data w ++ map_of (rev (fetched env socks))
       \<and> (evaluator env (data w1) task = Inl e \<longrightarrow>
            fst (compute env w key task locations) = w1
            \<and> (\<forall>(jid, v) \<in> set (fetched env socks).
                 data (fst (compute env w key task locations)) jid \<noteq> None))
       \<and> (evaluator env (data w1) task = Inr result \<and> hashable key \<longrightarrow>
            fst (compute env w key task locations) = w1\<lparr>data := (data w1)(key \<mapsto> result)\<rparr>)"
proof -
  from collect_Return [OF assms]
  have d: "data w1 = data w ++ map_of (rev (fetched env socks))" by simp
  have bound: "data w1 jid \<noteq> None" if "(jid, v) \<in> set (fetched env socks)" for jid v
  proof -
    from that have "jid \<in> fst ` set (rev (fetched env socks))" by force
    then have "map_of (rev (fetched env socks)) jid \<noteq> None"
      by (simp add: map_of_eq_None_iff)
    with d show ?thesis by (auto simp: map_add_def split: option.splits)
  qed
  from assms d bound show ?thesis
    by (auto simp: compute_def Let_def)
qed

theorem compute_failure_keeps_collected_witness:
  "fst (compute env0 w0 (PStr ''y'') (PStr ''task'') locations0)
     = w0\<lparr>data := [PStr ''z'' \<mapsto> PInt 5]\<rparr>
   \<and> data (w0\<lparr>data := [PStr ''z'' \<mapsto> PInt 5]\<rparr>)
       = data w0 ++ map_of (rev (fetched env0
           [(''tcp://alice:5000'', getitem_request ''tcp://bob:5000'' (PStr ''z''))]))"
proof -
  from compute_failure_keeps_collected
         [OF collect_w0, where task = "PStr ''task''" and e = "PExc ''Exception'' []"
            and key = "PStr ''y''"]
  show ?thesis by (simp add: evaluator_env0)
qed

subsection \<open>Construction\<close>

text \<open>With an address given, the constructor announces itself and binds the address.\<close>

lemma init_with_address:
  "init m scheduler' d (Some a) port =
     ([[Raw [], Raw ''Register'']],
      if can_bind m a
      then Inr \<lparr>address = a, scheduler = scheduler', status = ''run'', lock = new_lock m,
                data = d\<rparr>
      else Inl (PExc ''ZMQError'' []))"
  by (simp add: init_def)

text \<open>
  Claim C8 fails in the code. With no address given, the constructor evaluates
  \<^verbatim>\<open>socket.gethostname()\<close>; the module never imports \<^verbatim>\<open>socket\<close>, so the
  construction ends with \<^verbatim>\<open>NameError\<close> before a socket is opened or a message is
  written, whatever the port is and whether or not the address could be bound.
\<close>

theorem init_without_address_raises_NameError:
  "init m scheduler' d None port = ([], Inl (PExc ''NameError'' [PStr ''socket'']))"
  by (simp add: init_def default_address_def global_name_def module_globals_def)

subsection \<open>The lock of the send paths\<close>

lemma send_paths_lock:
  "under_lock (send_to_scheduler w header payload) = lock w"
  "under_lock (send_to_worker w addr header payload) = lock w"
  by (simp_all add: send_to_scheduler_def send_to_worker_def)

lemma sends_under_start:
  assumes "\<forall>m \<in> set msgs. under_lock m = L"
  shows "sends_under L (start msgs)"
  unfolding sends_under_def
proof (intro allI impI)
  fix i assume "i < length (threads (start msgs))"
  then have i: "i < length msgs" by (simp add: start_def)
  then have "msgs ! i \<in> set msgs" by simp
  with assms have "under_lock (msgs ! i) = L" by blast
  then obtain c fs where "msgs ! i = Sent L c fs" by (cases "msgs ! i") auto
  with i show "at_send_point L (start msgs) i"
    by (auto simp: at_send_point_def start_def)
qed

lemma in_critical_holds:
  assumes "sends_under L s" and "i < length (threads s)" and "in_critical (threads s ! i)"
  shows "holder s L = Some i"
proof -
  from assms(1,2) have "at_send_point L s i" by (simp add: sends_under_def)
  with assms(3) show ?thesis by (auto simp: at_send_point_def)
qed

lemma length_threads_step: "length (threads (thread_step i s)) = length (threads s)"
  by (auto simp: thread_step_def split: list.splits action.splits)

lemma length_threads_run: "length (threads (run s schedule)) = length (threads s)"
  by (induction schedule arbitrary: s) (auto simp: length_threads_step)

text \<open>While a thread holds the lock, every other thread is before or behind its send.\<close>

lemma others_outside:
  assumes "sends_under L s" and "holder s L = None \<or> holder s L = Some i"
      and "k < length (threads s)" and "k \<noteq> i"
  shows "(\<exists>c fs. threads s ! k = Acquire L # map (Write c) fs @ [Release L])
         \<or> threads s ! k = []"
proof -
  from assms(1,3) have "at_send_point L s k" by (simp add: sends_under_def)
  with assms(2,4) show ?thesis by (auto simp: at_send_point_def)
qed

text \<open>The three steps of a thread that moves.\<close>

lemma step_cases:
  assumes "sends_under L s" and "i < length (threads s)"
  obtains
    (stays) "thread_step i s = s"
  | (acquires) c fs where "threads s ! i = Acquire L # map (Write c) fs @ [Release L]"
      and "holder s L = None"
      and "thread_step i s = s\<lparr>threads := (threads s)[i := map (Write c) fs @ [Release L]],
                                holder := (holder s)(L \<mapsto> i)\<rparr>"
  | (writes) c f fs where "threads s ! i = Write c f # map (Write c) fs @ [Release L]"
      and "holder s L = Some i"
      and "thread_step i s = s\<lparr>threads := (threads s)[i := map (Write c) fs @ [Release L]],
                                wire := wire s @ [(i, c, f)]\<rparr>"
  | (releases) "threads s ! i = [Release L]"
      and "holder s L = Some i"
      and "thread_step i s = s\<lparr>threads := (threads s)[i := []],
                                holder := (holder s)(L := None)\<rparr>"
proof -
  from assms have "at_send_point L s i" by (simp add: sends_under_def)
  then consider
      (waiting) c fs where "threads s ! i = Acquire L # map (Write c) fs @ [Release L]"
    | (inside) c fs where "threads s ! i = map (Write c) fs @ [Release L]" "holder s L = Some i"
    | (finished) "threads s ! i = []"
    unfolding at_send_point_def by blast
  then show thesis
  proof cases
    case finished
    with assms(2) have "thread_step i s = s" by (simp add: thread_step_def)
    then show thesis by (rule stays)
  next
    case waiting
    show thesis
    proof (cases "holder s L")
      case None
      with waiting assms(2) show thesis
        by (intro acquires [of c fs]) (simp_all add: thread_step_def)
    next
      case (Some t)
      with waiting assms(2) have "thread_step i s = s" by (simp add: thread_step_def)
      then show thesis by (rule stays)
    qed
  next
    case inside
    show thesis
    proof (cases fs)
      case Nil
      with inside assms(2) show thesis
        by (intro releases) (simp_all add: thread_step_def)
    next
      case (Cons f fs')
      with inside assms(2) show thesis
        by (intro writes [of c f fs']) (simp_all add: thread_step_def)
    qed
  qed
qed

lemma sends_under_step:
  assumes "sends_under L s"
  shows "sends_under L (thread_step i s)"
proof (cases "i < length (threads s)")
  case False
  with assms show ?thesis by (simp add: thread_step_def)
next
  case True
  from assms True show ?thesis
  proof (cases rule: step_cases)
    case stays
    with assms show ?thesis by simp
  next
    case (acquires c fs)
    show ?thesis
      unfolding sends_under_def
    proof (intro allI impI)
      fix k assume "k < length (threads (thread_step i s))"
      then have k: "k < length (threads s)" by (simp add: length_threads_step)
      show "at_send_point L (thread_step i s) k"
      proof (cases "k = i")
        case True
        with k acquires show ?thesis by (auto simp: at_send_point_def)
      next
        case False
        from others_outside [OF assms _ k False] acquires(2) False k
        show ?thesis by (auto simp: at_send_point_def acquires(3))
      qed
    qed
  next
    case (writes c f fs)
    show ?thesis
      unfolding sends_under_def
    proof (intro allI impI)
      fix k assume "k < length (threads (thread_step i s))"
      then have k: "k < length (threads s)" by (simp add: length_threads_step)
      show "at_send_point L (thread_step i s) k"
      proof (cases "k = i")
        case True
        with k writes show ?thesis by (auto simp: at_send_point_def)
      next
        case False
        from others_outside [OF assms _ k False] writes(2) False k
        show ?thesis by (auto simp: at_send_point_def writes(3))
      qed
    qed
  next
    case releases
    show ?thesis
      unfolding sends_under_def
    proof (intro allI impI)
      fix k assume "k < length (threads (thread_step i s))"
      then have k: "k < length (threads s)" by (simp add: length_threads_step)
      show "at_send_point L (thread_step i s) k"
      proof (cases "k = i")
        case True
        with k releases show ?thesis by (auto simp: at_send_point_def)
      next
        case False
        from others_outside [OF assms _ k False] releases(2) False k
        show ?thesis by (auto simp: at_send_point_def releases(3))
      qed
    qed
  qed
qed

lemma sends_under_run: "sends_under L s \<Longrightarrow> sends_under L (run s schedule)"
  by (induction schedule arbitrary: s) (auto intro: sends_under_step)

text \<open>Blocks stay blocks when the thread that wrote last, or a thread that has not
  written, writes a frame.\<close>

lemma blocks_snoc:
  assumes "distinct (remdups_adj xs)" and "i \<notin> set xs \<or> (xs \<noteq> [] \<and> last xs = i)"
  shows "distinct (remdups_adj (xs @ [i]))"
proof (cases xs rule: rev_cases)
  case Nil
  then show ?thesis by simp
next
  case (snoc ys y)
  then have "remdups_adj (xs @ [i]) = remdups_adj xs @ (if y = i then [] else [i])"
    by (simp add: remdups_adj_append_two)
  with assms snoc show ?thesis by auto
qed

lemma wire_follows_start: "wire_follows L (start msgs)"
  by (simp add: wire_follows_def wire_in_blocks_def start_def)

lemma wire_followsI:
  assumes "\<And>k c fs. k < length (threads s) \<Longrightarrow>
             threads s ! k = Acquire L # map (Write c) fs @ [Release L] \<Longrightarrow>
             k \<notin> fst ` set (wire s)"
      and "\<And>k. holder s L = Some k \<Longrightarrow>
             k \<notin> fst ` set (wire s) \<or> (wire s \<noteq> [] \<and> fst (last (wire s)) = k)"
      and "distinct (remdups_adj (map fst (wire s)))"
  shows "wire_follows L s"
  unfolding wire_follows_def wire_in_blocks_def using assms by blast

lemma wire_follows_step:
  assumes "sends_under L s" and "wire_follows L s"
  shows "wire_follows L (thread_step i s)"
proof (cases "i < length (threads s)")
  case False
  with assms show ?thesis by (simp add: thread_step_def)
next
  case True
  from assms(2)
  have before: "\<And>k c fs. k < length (threads s) \<Longrightarrow>
                  threads s ! k = Acquire L # map (Write c) fs @ [Release L] \<Longrightarrow>
                  k \<notin> fst ` set (wire s)"
    and last: "\<And>k. holder s L = Some k \<Longrightarrow>
                  k \<notin> fst ` set (wire s) \<or> (wire s \<noteq> [] \<and> fst (last (wire s)) = k)"
    and blocks: "distinct (remdups_adj (map fst (wire s)))"
    unfolding wire_follows_def wire_in_blocks_def by blast+
  from assms(1) True show ?thesis
  proof (cases rule: step_cases)
    case stays
    with assms show ?thesis by simp
  next
    case (acquires c fs)
    show ?thesis
    proof (rule wire_followsI)
      fix k c' fs'
      assume "k < length (threads (thread_step i s))"
        and "threads (thread_step i s) ! k = Acquire L # map (Write c') fs' @ [Release L]"
      then have k: "k < length (threads s)"
        and t: "(threads s)[i := map (Write c) fs @ [Release L]] ! k
                  = Acquire L # map (Write c') fs' @ [Release L]"
        by (simp_all add: acquires(3))
      have "k \<noteq> i" using t k by (cases fs) auto
      with t k before [of k c' fs'] show "k \<notin> fst ` set (wire (thread_step i s))"
        by (simp add: acquires(3))
    next
      fix k assume "holder (thread_step i s) L = Some k"
      then have "k = i" by (simp add: acquires(3))
      with before [OF True acquires(1)]
      show "k \<notin> fst ` set (wire (thread_step i s))
            \<or> (wire (thread_step i s) \<noteq> [] \<and> fst (List.last (wire (thread_step i s))) = k)"
        by (simp add: acquires(3))
    next
      from blocks show "distinct (remdups_adj (map fst (wire (thread_step i s))))"
        by (simp add: acquires(3))
    qed
  next
    case (writes c f fs)
    show ?thesis
    proof (rule wire_followsI)
      fix k c' fs'
      assume "k < length (threads (thread_step i s))"
        and "threads (thread_step i s) ! k = Acquire L # map (Write c') fs' @ [Release L]"
      then have k: "k < length (threads s)"
        and t: "(threads s)[i := map (Write c) fs @ [Release L]] ! k
                  = Acquire L # map (Write c') fs' @ [Release L]"
        by (simp_all add: writes(3))
      have "k \<noteq> i" using t k by (cases fs) auto
      with t k before [of k c' fs'] show "k \<notin> fst ` set (wire (thread_step i s))"
        by (simp add: writes(3))
    next
      fix k assume "holder (thread_step i s) L = Some k"
      then have "k = i" using writes(2) by (simp add: writes(3))
      then show "k \<notin> fst ` set (wire (thread_step i s))
            \<or> (wire (thread_step i s) \<noteq> [] \<and> fst (List.last (wire (thread_step i s))) = k)"
        by (simp add: writes(3))
    next
      from last [OF writes(2)]
      have "i \<notin> set (map fst (wire s))
            \<or> (map fst (wire s) \<noteq> [] \<and> List.last (map fst (wire s)) = i)"
        by (auto simp: last_map)
      with blocks have "distinct (remdups_adj (map fst (wire s) @ [i]))"
        by (rule blocks_snoc)
      then show "distinct (remdups_adj (map fst (wire (thread_step i s))))"
        by (simp add: writes(3))
    qed
  next
    case releases
    show ?thesis
    proof (rule wire_followsI)
      fix k c' fs'
      assume "k < length (threads (thread_step i s))"
        and "threads (thread_step i s) ! k = Acquire L # map (Write c') fs' @ [Release L]"
      then have k: "k < length (threads s)"
        and t: "(threads s)[i := []] ! k = Acquire L # map (Write c') fs' @ [Release L]"
        by (simp_all add: releases(3))
      have "k \<noteq> i" using t k by auto
      with t k before [of k c' fs'] show "k \<notin> fst ` set (wire (thread_step i s))"
        by (simp add: releases(3))
    next
      fix k assume "holder (thread_step i s) L = Some k"
      then have False by (simp add: releases(3))
      then show "k \<notin> fst ` set (wire (thread_step i s))
            \<or> (wire (thread_step i s) \<noteq> [] \<and> fst (List.last (wire (thread_step i s))) = k)" ..
    next
      from blocks show "distinct (remdups_adj (map fst (wire (thread_step i s))))"
        by (simp add: releases(3))
    qed
  qed
qed

lemma wire_follows_run:
  "sends_under L s \<Longrightarrow> wire_follows L s \<Longrightarrow> wire_follows L (run s schedule)"
  by (induction schedule arbitrary: s) (auto intro: sends_under_step wire_follows_step)

text \<open>
  Claim C9, as amended. Both send paths take the same lock, \<^verbatim>\<open>self.lock\<close>, the one
  lock of the worker. Whatever sends of a worker the pool threads run, on either channel
  and in whatever order the threads are scheduled, at most one thread is inside its
  critical section at any time, and the frames of each message stand together on the
  wire: no channel interleaves the frames of two messages, and the two channels are not
  written to at the same time.
\<close>

theorem one_lock_for_both_channels:
  assumes "\<forall>m \<in> set msgs. (\<exists>header payload. m = send_to_scheduler w header payload)
                       \<or> (\<exists>addr header result. m = send_to_worker w addr header result)"
  shows "(\<forall>i j. i < length msgs \<and> j < length msgs
             \<and> in_critical (threads (run (start msgs) schedule) ! i)
             \<and> in_critical (threads (run (start msgs) schedule) ! j) \<longrightarrow> i = j)
       \<and> wire_in_blocks (run (start msgs) schedule)"
proof -
  from assms have "\<forall>m \<in> set msgs. under_lock m = lock w"
    by (auto simp: send_paths_lock)
  then have "sends_under (lock w) (start msgs)"
    by (rule sends_under_start)
  then have inv: "sends_under (lock w) (run (start msgs) schedule)"
    and wf: "wire_follows (lock w) (run (start msgs) schedule)"
    by (auto intro: sends_under_run wire_follows_run wire_follows_start)
  have len: "length (threads (run (start msgs) schedule)) = length msgs"
    by (simp add: length_threads_run start_def)
  have "i = j" if "i < length msgs" "j < length msgs"
      "in_critical (threads (run (start msgs) schedule) ! i)"
      "in_critical (threads (run (start msgs) schedule) ! j)" for i j
    using in_critical_holds [OF inv _ that(3)] in_critical_holds [OF inv _ that(4)] len that(1,2)
    by simp
  with wf show ?thesis by (auto simp: wire_follows_def)
qed

theorem one_lock_for_both_channels_witness:
  "wire_in_blocks (run (start msgs0) [0, 1, 0, 1, 0, 0, 1, 1, 1, 1, 1])"
proof -
  have "\<forall>m \<in> set msgs0. (\<exists>header payload. m = send_to_scheduler w0 header payload)
                       \<or> (\<exists>addr header result. m = send_to_worker w0 addr header result)"
  proof
    fix m assume "m \<in> set msgs0"
    then consider
        "m = send_to_scheduler w0 [(PStr ''jobid'', PInt 1), (PStr ''status'', PStr ''OK'')]
               (PStr ''OK'')"
      | "m = send_to_worker w0 (Raw ''id'')
               [(PStr ''jobid'', PInt 2), (PStr ''status'', PStr ''OK'')] (PStr ''OK'')"
      by (auto simp: msgs0_def)
    then show "(\<exists>header payload. m = send_to_scheduler w0 header payload)
             \<or> (\<exists>addr header result. m = send_to_worker w0 addr header result)"
      by cases blast+
  qed
  from one_lock_for_both_channels
         [OF this, where schedule = "[0, 1, 0, 1, 0, 0, 1, 1, 1, 1, 1]", THEN conjunct2]
  show ?thesis .
qed

text \<open>Claim C9 as stated fails: the send to the scheduler and the send to a worker take
  the same lock. A thread has taken it and written its first frame to the dealer socket;
  the thread with the message for the router socket is given the processor three times
  and is still waiting for the lock, with nothing written to the router socket.\<close>

theorem one_lock_counterexample:
  "under_lock (msgs0 ! 0) = under_lock (msgs0 ! 1)
   \<and> channel (msgs0 ! 0) = Dealer \<and> channel (msgs0 ! 1) = Router
   \<and> in_critical (threads (run (start msgs0) [0, 0, 1, 1, 1]) ! 0)
   \<and> threads (run (start msgs0) [0, 0, 1, 1, 1]) ! 1 = send_actions (msgs0 ! 1)
   \<and> map (\<lambda>x. fst (snd x)) (wire (run (start msgs0) [0, 0, 1, 1, 1])) = [Dealer]"
  by (simp add: msgs0_def start_def thread_step_def send_to_scheduler_def send_to_worker_def
        w0_def)

end
